theory Spec2Isabelle
  imports Complex_Main "HOL-Library.Word" "HOL-Library.AList" "HOL-Library.Sublist"
begin

unbundle bit_operations_syntax

section \<open>Python text\<close>

text \<open>
  A Python \<open>str\<close> is a sequence of code points. The model is \<open>string\<close>, a list of
  \<open>char\<close>, each \<open>char\<close> standing for the code point of its number (0 to 255, the
  Latin-1 range). The character classes below are those of Python 3 on that range:
  \<open>str.isspace\<close>, \<open>str.isalnum\<close> and \<open>str.lower\<close>. Code points above 255 are
  outside the model.
\<close>

definition isspace :: "char \<Rightarrow> bool" where
  "isspace c =
     (let n = (of_char c :: nat)
      in (9 \<le> n \<and> n \<le> 13) \<or> (28 \<le> n \<and> n \<le> 32) \<or> n = 133 \<or> n = 160)"

definition isalnum :: "char \<Rightarrow> bool" where
  "isalnum c =
     (let n = (of_char c :: nat)
      in (48 \<le> n \<and> n \<le> 57) \<or> (65 \<le> n \<and> n \<le> 90) \<or> (97 \<le> n \<and> n \<le> 122)
         \<or> n = 170 \<or> n = 178 \<or> n = 179 \<or> n = 181 \<or> n = 185 \<or> n = 186
         \<or> (188 \<le> n \<and> n \<le> 190)
         \<or> (192 \<le> n \<and> n \<le> 214) \<or> (216 \<le> n \<and> n \<le> 246) \<or> 248 \<le> n)"

definition lower_char :: "char \<Rightarrow> char" where
  "lower_char c =
     (let n = (of_char c :: nat)
      in if (65 \<le> n \<and> n \<le> 90) \<or> (192 \<le> n \<and> n \<le> 222 \<and> n \<noteq> 215)
         then char_of (n + 32) else c)"

definition lower :: "string \<Rightarrow> string" where
  "lower s = map lower_char s"

text \<open>\<open>s.strip()\<close>: whitespace removed at both ends.\<close>

definition strip :: "string \<Rightarrow> string" where
  "strip s = rev (dropWhile isspace (rev (dropWhile isspace s)))"

text \<open>\<open>sep.join(xs)\<close>.\<close>

fun join :: "string \<Rightarrow> string list \<Rightarrow> string" where
  "join sep [] = []"
| "join sep [x] = x"
| "join sep (x # y # ys) = x @ sep @ join sep (y # ys)"

text \<open>\<open>s.encode("utf-8")\<close> on code points below 256: one byte below 128, two above.\<close>

definition utf8_char :: "char \<Rightarrow> nat list" where
  "utf8_char c =
     (let n = (of_char c :: nat)
      in if n < 128 then [n] else [192 + n div 64, 128 + n mod 64])"

definition encode_utf8 :: "string \<Rightarrow> nat list" where
  "encode_utf8 s = concat (map utf8_char s)"

section \<open>SHA-256 (hashlib.sha256)\<close>

text \<open>
  The digest of \<open>hashlib\<close>, as FIPS 180-4 defines it: the message is padded to whole
  blocks of 64 bytes, and each block is compressed into a state of eight 32-bit words.
  The round constants are the first 32 bits of the fractional parts of the cube roots of
  the first 64 primes, the initial state those of the square roots of the first 8 primes.
\<close>

definition sha_k :: "32 word list" where
  "sha_k =
    [1116352408, 1899447441, 3049323471, 3921009573,
     961987163, 1508970993, 2453635748, 2870763221,
     3624381080, 310598401, 607225278, 1426881987,
     1925078388, 2162078206, 2614888103, 3248222580,
     3835390401, 4022224774, 264347078, 604807628,
     770255983, 1249150122, 1555081692, 1996064986,
     2554220882, 2821834349, 2952996808, 3210313671,
     3336571891, 3584528711, 113926993, 338241895,
     666307205, 773529912, 1294757372, 1396182291,
     1695183700, 1986661051, 2177026350, 2456956037,
     2730485921, 2820302411, 3259730800, 3345764771,
     3516065817, 3600352804, 4094571909, 275423344,
     430227734, 506948616, 659060556, 883997877,
     958139571, 1322822218, 1537002063, 1747873779,
     1955562222, 2024104815, 2227730452, 2361852424,
     2428436474, 2756734187, 3204031479, 3329325298]"

definition sha_ch :: "32 word \<Rightarrow> 32 word \<Rightarrow> 32 word \<Rightarrow> 32 word" where
  "sha_ch x y z = (x AND y) XOR (NOT x AND z)"

definition sha_maj :: "32 word \<Rightarrow> 32 word \<Rightarrow> 32 word \<Rightarrow> 32 word" where
  "sha_maj x y z = (x AND y) XOR (x AND z) XOR (y AND z)"

definition big_sigma0 :: "32 word \<Rightarrow> 32 word" where
  "big_sigma0 x = word_rotr 2 x XOR word_rotr 13 x XOR word_rotr 22 x"

definition big_sigma1 :: "32 word \<Rightarrow> 32 word" where
  "big_sigma1 x = word_rotr 6 x XOR word_rotr 11 x XOR word_rotr 25 x"

definition small_sigma0 :: "32 word \<Rightarrow> 32 word" where
  "small_sigma0 x = word_rotr 7 x XOR word_rotr 18 x XOR drop_bit 3 x"

definition small_sigma1 :: "32 word \<Rightarrow> 32 word" where
  "small_sigma1 x = word_rotr 17 x XOR word_rotr 19 x XOR drop_bit 10 x"

text \<open>Padding: the byte 128, zero bytes, and the bit length as eight bytes, big end first.\<close>

definition sha_length_bytes :: "nat \<Rightarrow> nat list" where
  "sha_length_bytes n = map (\<lambda>i. (n div 256 ^ i) mod 256) (rev [0..<8])"

definition sha_pad :: "nat list \<Rightarrow> nat list" where
  "sha_pad bs =
     bs @ [128] @ replicate ((119 - length bs mod 64) mod 64) 0
        @ sha_length_bytes (8 * length bs)"

fun sha_words :: "nat list \<Rightarrow> 32 word list" where
  "sha_words (a # b # c # d # rest) =
     of_nat (((a * 256 + b) * 256 + c) * 256 + d) # sha_words rest"
| "sha_words _ = []"

fun sha_blocks :: "32 word list \<Rightarrow> 32 word list list" where
  "sha_blocks [] = []"
| "sha_blocks (w # ws) = take 16 (w # ws) # sha_blocks (drop 16 (w # ws))"

text \<open>The message schedule: the 16 words of the block, extended to 64.\<close>

fun sha_schedule :: "nat \<Rightarrow> 32 word list \<Rightarrow> 32 word list" where
  "sha_schedule 0 ws = ws"
| "sha_schedule (Suc n) ws =
     (let t = length ws
      in sha_schedule n
           (ws @ [small_sigma1 (ws ! (t - 2)) + ws ! (t - 7)
                  + small_sigma0 (ws ! (t - 15)) + ws ! (t - 16)]))"

type_synonym sha_state =
  "32 word \<times> 32 word \<times> 32 word \<times> 32 word \<times> 32 word \<times> 32 word \<times> 32 word \<times> 32 word"

fun sha_round :: "sha_state \<Rightarrow> 32 word \<times> 32 word \<Rightarrow> sha_state" where
  "sha_round (a, b, c, d, e, f, g, h) (k, w) =
     (let t1 = h + big_sigma1 e + sha_ch e f g + k + w;
          t2 = big_sigma0 a + sha_maj a b c
      in (t1 + t2, a, b, c, d + t1, e, f, g))"

fun sha_add :: "sha_state \<Rightarrow> sha_state \<Rightarrow> sha_state" where
  "sha_add (a, b, c, d, e, f, g, h) (a', b', c', d', e', f', g', h') =
     (a + a', b + b', c + c', d + d', e + e', f + f', g + g', h + h')"

definition sha_compress :: "sha_state \<Rightarrow> 32 word list \<Rightarrow> sha_state" where
  "sha_compress st block =
     sha_add st (foldl sha_round st (zip sha_k (sha_schedule 48 block)))"

definition hex_digit :: "nat \<Rightarrow> char" where
  "hex_digit n = (if n < 10 then char_of (48 + n) else char_of (87 + n))"

definition hex_word :: "32 word \<Rightarrow> string" where
  "hex_word w = map (\<lambda>i. hex_digit ((unat w div 16 ^ i) mod 16)) (rev [0..<8])"

fun sha_state_words :: "sha_state \<Rightarrow> 32 word list" where
  "sha_state_words (a, b, c, d, e, f, g, h) = [a, b, c, d, e, f, g, h]"

definition sha_init :: sha_state where
  "sha_init = (1779033703, 3144134277, 1013904242, 2773480762,
               1359893119, 2600822924, 528734635, 1541459225)"

text \<open>\<open>sha256(bs).hexdigest()\<close>: 64 lowercase hexadecimal digits.\<close>

definition sha256_hexdigest :: "nat list \<Rightarrow> string" where
  "sha256_hexdigest bs =
     concat (map hex_word (sha_state_words
       (foldl sha_compress sha_init (sha_blocks (sha_words (sha_pad bs))))))"

section \<open>The row fingerprint\<close>

text \<open>
  \<open>str(x)\<close> of a cell: the text itself, and \<open>None\<close> for a missing cell (the payload
  declares \<open>values: List[Optional[str]]\<close>).
\<close>

fun py_str :: "string option \<Rightarrow> string" where
  "py_str None = ''None''"
| "py_str (Some s) = s"

text \<open>
  \<open>row_hash\<close> feeds the digest twice: \<open>h.update(a); h.update(b)\<close> hashes the bytes of
  \<open>a\<close> followed by those of \<open>b\<close>.
\<close>

definition row_hash_bytes :: "string list \<Rightarrow> string option list \<Rightarrow> nat list" where
  "row_hash_bytes headers vals =
     encode_utf8 (join ''|'' headers) @ encode_utf8 (join ''|'' (map py_str vals))"

definition row_hash :: "string list \<Rightarrow> string option list \<Rightarrow> string" where
  "row_hash headers vals = sha256_hexdigest (row_hash_bytes headers vals)"

section \<open>Header normalisation and the alias table\<close>

text \<open>
  \<open>_norm(s)\<close>: \<open>"".join(ch for ch in str(s).strip().lower() if ch.isalnum())\<close>.
\<close>

definition norm_key :: "string \<Rightarrow> string" where
  "norm_key s = filter isalnum (lower (strip s))"

text \<open>
  \<open>HEADER_ALIASES\<close>, in the order the dictionary lists its keys; each alias set is a
  list, read only through membership.
\<close>

definition HEADER_ALIASES :: "(string \<times> string list) list" where
  "HEADER_ALIASES =
    [(''email'', [''email'', ''e-mail'', ''mail'']),
     (''firstname'', [''first name'', ''firstname'', ''first_name'', ''given name'']),
     (''lastname'', [''last name'', ''lastname'', ''last_name'', ''surname'']),
     (''phone'', [''phone'', ''phone number'', ''mobile'', ''mobile phone'']),
     (''company'', [''company'', ''account'', ''organisation'', ''organization''])]"

section \<open>The row mapper\<close>

text \<open>
  A contact is a Python dictionary from field names to texts, kept as an association list
  in insertion order; \<open>contact[prop] = v\<close> is \<open>AList.update\<close>, which overwrites in place.
\<close>

type_synonym contact = "(string \<times> string) list"

definition empty_contact :: contact where
  "empty_contact =
    [(''email'', ''''), (''firstname'', ''''), (''lastname'', ''''),
     (''phone'', ''''), (''company'', '''')]"

text \<open>\<open>xs.index(x)\<close>, called only where \<open>x in xs\<close> holds.\<close>

fun index_of :: "'a list \<Rightarrow> 'a \<Rightarrow> nat" where
  "index_of [] x = 0"
| "index_of (y # ys) x = (if y = x then 0 else Suc (index_of ys x))"

text \<open>The loop over \<open>lower_map.items()\<close> of the explicit branch.\<close>

fun apply_mapping :: "(string \<times> string) list \<Rightarrow> string list \<Rightarrow> string list \<Rightarrow> contact \<Rightarrow> contact" where
  "apply_mapping [] hnorm vals c = c"
| "apply_mapping ((prop, wanted) # rest) hnorm vals c =
     apply_mapping rest hnorm vals
       (if wanted \<in> set hnorm
        then (let idx = index_of hnorm wanted
              in if idx < length vals then AList.update prop (vals ! idx) c else c)
        else c)"

text \<open>
  The inner loop of the heuristic branch, over \<open>enumerate(hnorm)\<close>: it stops at the first
  header that is an alias, whether or not the row has a value at that position.
\<close>

fun scan_headers :: "string \<Rightarrow> string list \<Rightarrow> (nat \<times> string) list \<Rightarrow> string list \<Rightarrow> contact \<Rightarrow> contact" where
  "scan_headers prop aliases [] vals c = c"
| "scan_headers prop aliases ((i, h) # rest) vals c =
     (if h \<in> norm_key ` set aliases
      then (if i < length vals then AList.update prop (vals ! i) c else c)
      else scan_headers prop aliases rest vals c)"

text \<open>The outer loop, over \<open>HEADER_ALIASES.items()\<close>.\<close>

fun apply_aliases :: "(string \<times> string list) list \<Rightarrow> string list \<Rightarrow> string list \<Rightarrow> contact \<Rightarrow> contact" where
  "apply_aliases [] hnorm vals c = c"
| "apply_aliases ((prop, aliases) # rest) hnorm vals c =
     apply_aliases rest hnorm vals (scan_headers prop aliases (enumerate 0 hnorm) vals c)"

text \<open>
  \<open>contact["email"] = contact["email"].strip().lower()\<close>, then the comprehension that
  drops the empty fields. The key \<open>email\<close> is always in the dictionary at that point.
\<close>

definition finish_contact :: "contact \<Rightarrow> contact" where
  "finish_contact c =
     (let e = (case map_of c ''email'' of Some v \<Rightarrow> v | None \<Rightarrow> '''');
          c' = AList.update ''email'' (lower (strip e)) c
      in filter (\<lambda>(k, v). v \<noteq> '''') c')"

text \<open>
  \<open>map_row_to_contact(headers, values, mapping)\<close>. \<open>cell_text v\<close> is
  \<open>"" if v is None else str(v)\<close>, and \<open>if mapping:\<close> is false for \<open>None\<close> and for the
  empty dictionary.
\<close>

fun cell_text :: "string option \<Rightarrow> string" where
  "cell_text None = ''''"
| "cell_text (Some s) = s"

definition map_row_to_contact ::
  "string list \<Rightarrow> string option list \<Rightarrow> (string \<times> string) list option \<Rightarrow> contact" where
  "map_row_to_contact headers vs mapping =
     (let vals = map cell_text vs;
          hnorm = map norm_key headers
      in finish_contact
           (case mapping of
              Some (kv # kvs) \<Rightarrow>
                (let lower_map =
                       map (\<lambda>(k, v). (k, norm_key v))
                         (filter (\<lambda>(k, v). k \<in> fst ` set empty_contact) (kv # kvs))
                 in apply_mapping lower_map hnorm vals empty_contact)
            | _ \<Rightarrow> apply_aliases HEADER_ALIASES hnorm vals empty_contact))"

section \<open>JSON values and exceptions\<close>

text \<open>
  What \<open>r.json()\<close> returns and what a request carries. Numbers are integers here.
  \<open>truthy\<close> is Python's truth value of such an object (\<open>if cid:\<close>, \<open>x or ""\<close>).
\<close>

datatype json =
  JNull | JBool bool | JNum int | JStr string | JArr "json list" | JObj "(string \<times> json) list"

fun truthy :: "json \<Rightarrow> bool" where
  "truthy JNull = False"
| "truthy (JBool b) = b"
| "truthy (JNum n) = (n \<noteq> 0)"
| "truthy (JStr s) = (s \<noteq> [])"
| "truthy (JArr xs) = (xs \<noteq> [])"
| "truthy (JObj kvs) = (kvs \<noteq> [])"

text \<open>
  \<open>HTTPException(status_code, detail)\<close> of the web framework, and every other Python
  exception under its class name.
\<close>

datatype exn = HTTPException int string | PyError string

text \<open>\<open>d.get(key, default)\<close>: only a dictionary has the method.\<close>

fun py_get :: "json \<Rightarrow> string \<Rightarrow> json \<Rightarrow> exn + json" where
  "py_get (JObj kvs) k dflt = Inr (case map_of kvs k of Some v \<Rightarrow> v | None \<Rightarrow> dflt)"
| "py_get _ k dflt = Inl (PyError ''AttributeError'')"

text \<open>\<open>results[0]\<close>, evaluated only where \<open>results\<close> is truthy.\<close>

fun py_first :: "json \<Rightarrow> exn + json" where
  "py_first (JArr (x # xs)) = Inr x"
| "py_first (JArr []) = Inl (PyError ''IndexError'')"
| "py_first (JStr (c # cs)) = Inr (JStr [c])"
| "py_first (JStr []) = Inl (PyError ''IndexError'')"
| "py_first (JObj kvs) = Inl (PyError ''KeyError'')"
| "py_first _ = Inl (PyError ''TypeError'')"

section \<open>The audit log\<close>

text \<open>A row of the table \<open>events\<close>; \<open>r_hash\<close> is the column \<open>row_hash\<close>.\<close>

record event =
  spreadsheet_id :: string
  sheet_name :: string
  row_index :: int
  r_hash :: string
  hubspot_id :: json
  action :: string
  detail :: string

definition already_processed :: "event list \<Rightarrow> string \<Rightarrow> string \<Rightarrow> int \<Rightarrow> string \<Rightarrow> bool" where
  "already_processed db sid sname ridx rh =
     list_ex (\<lambda>e. spreadsheet_id e = sid \<and> sheet_name e = sname
                   \<and> row_index e = ridx \<and> r_hash e = rh) db"

text \<open>\<open>log_event\<close> inserts one row: \<open>hubspot_id or ""\<close> and \<open>detail[:2000]\<close>.\<close>

definition log_event ::
  "event list \<Rightarrow> string \<Rightarrow> string \<Rightarrow> int \<Rightarrow> string \<Rightarrow> string \<Rightarrow> json \<Rightarrow> string \<Rightarrow> event list" where
  "log_event db sid sname ridx rh act hid det =
     db @ [\<lparr>spreadsheet_id = sid, sheet_name = sname, row_index = ridx, r_hash = rh,
            hubspot_id = (if truthy hid then hid else JStr ''''), action = act,
            detail = take 2000 det\<rparr>]"

section \<open>The CRM transport\<close>

record request =
  req_method :: string
  req_url :: string
  req_headers :: "(string \<times> string) list"
  req_json :: json

record response =
  status_code :: int
  resp_text :: string
  resp_json :: "json option"

text \<open>
  What the process does to the world, in order: a request sent, a sleep of so many
  seconds. The state of the service is the audit log and this trace.
\<close>

datatype io = Sent request | Slept real

fun is_sent :: "io \<Rightarrow> bool" where
  "is_sent (Sent r) = True"
| "is_sent (Slept d) = False"

record state =
  events :: "event list"
  trace :: "io list"

text \<open>
  The environment of the service: its two settings, the network, and three Python
  formatters whose output no decision depends on (\<open>f"{contact_id}"\<close>, \<open>str(contact)\<close>,
  \<open>repr(e)\<close>). \<open>net env n req\<close> is what \<open>requests.request\<close> does with the request \<open>req\<close>
  when \<open>n\<close> requests went out before it: it raises, or it returns a response.
\<close>

record env =
  BRIDGE_SECRET :: string
  HUBSPOT_ACCESS_TOKEN :: string
  net :: "nat \<Rightarrow> request \<Rightarrow> exn + response"
  format_id :: "json \<Rightarrow> string"
  str_contact :: "contact \<Rightarrow> string"
  repr_exc :: "exn \<Rightarrow> string"

definition HUBSPOT_API_BASE :: string where
  "HUBSPOT_API_BASE = ''https://api.hubapi.com''"

definition hs_headers :: "env \<Rightarrow> exn + (string \<times> string) list" where
  "hs_headers env =
     (if HUBSPOT_ACCESS_TOKEN env = ''''
      then Inl (HTTPException 400 ''HUBSPOT_ACCESS_TOKEN missing'')
      else Inr [(''Authorization'', ''Bearer '' @ HUBSPOT_ACCESS_TOKEN env),
                (''Content-Type'', ''application/json'')])"

definition send_request :: "env \<Rightarrow> request \<Rightarrow> state \<Rightarrow> (exn + response) \<times> state" where
  "send_request env req st =
     (net env (length (filter is_sent (trace st))) req,
      st\<lparr>trace := trace st @ [Sent req]\<rparr>)"

definition sleep :: "real \<Rightarrow> state \<Rightarrow> state" where
  "sleep d st = st\<lparr>trace := trace st @ [Slept d]\<rparr>"

text \<open>
  \<open>_request_retry\<close>: the loop \<open>for attempt in range(5)\<close>, and \<open>return r\<close> after it. The
  third argument is what is left of the range, the fourth the variable \<open>r\<close>.
\<close>

fun retry_loop :: "env \<Rightarrow> request \<Rightarrow> nat list \<Rightarrow> response option \<Rightarrow> state \<Rightarrow> (exn + response) \<times> state" where
  "retry_loop env req [] r st =
     (case r of None \<Rightarrow> (Inl (PyError ''UnboundLocalError''), st) | Some r' \<Rightarrow> (Inr r', st))"
| "retry_loop env req (attempt # rest) r st =
     (case send_request env req st of
        (Inl e, st1) \<Rightarrow> (Inl e, st1)
      | (Inr r', st1) \<Rightarrow>
          if status_code r' < 500 \<and> status_code r' \<noteq> 429 then (Inr r', st1)
          else retry_loop env req rest (Some r') (sleep (min (0.5 * 2 ^ attempt) 6) st1))"

definition request_retry :: "env \<Rightarrow> request \<Rightarrow> state \<Rightarrow> (exn + response) \<times> state" where
  "request_retry env req st = retry_loop env req [0..<5] None st"

section \<open>The CRM client\<close>

definition search_payload :: "string \<Rightarrow> json" where
  "search_payload email =
     JObj [(''filterGroups'',
             JArr [JObj [(''filters'',
               JArr [JObj [(''propertyName'', JStr ''email''), (''operator'', JStr ''EQ''),
                           (''value'', JStr email)]])]]),
           (''properties'', JArr [JStr ''email''])]"

definition props_payload :: "contact \<Rightarrow> json" where
  "props_payload props = JObj [(''properties'', JObj (map (\<lambda>(k, v). (k, JStr v)) props))]"

text \<open>\<open>r.json()\<close> raises when the body is not JSON.\<close>

definition response_json :: "response \<Rightarrow> exn + json" where
  "response_json r =
     (case resp_json r of None \<Rightarrow> Inl (PyError ''JSONDecodeError'') | Some j \<Rightarrow> Inr j)"

text \<open>The last two lines of \<open>hubspot_find_contact_by_email\<close>.\<close>

definition first_result_id :: "response \<Rightarrow> exn + json" where
  "first_result_id r =
     (case response_json r of
        Inl e \<Rightarrow> Inl e
      | Inr j \<Rightarrow>
          (case py_get j ''results'' (JArr []) of
             Inl e \<Rightarrow> Inl e
           | Inr results \<Rightarrow>
               if truthy results
               then (case py_first results of Inl e \<Rightarrow> Inl e | Inr x \<Rightarrow> py_get x ''id'' JNull)
               else Inr JNull))"

definition hubspot_find_contact_by_email :: "env \<Rightarrow> string \<Rightarrow> state \<Rightarrow> (exn + json) \<times> state" where
  "hubspot_find_contact_by_email env email st =
     (case hs_headers env of
        Inl e \<Rightarrow> (Inl e, st)
      | Inr hs \<Rightarrow>
          (case request_retry env
                  \<lparr>req_method = ''POST'',
                   req_url = HUBSPOT_API_BASE @ ''/crm/v3/objects/contacts/search'',
                   req_headers = hs, req_json = search_payload email\<rparr> st of
             (Inl e, st1) \<Rightarrow> (Inl e, st1)
           | (Inr r, st1) \<Rightarrow>
               if status_code r \<ge> 400
               then (Inl (HTTPException 502 (''HubSpot search error: '' @ resp_text r)), st1)
               else (first_result_id r, st1)))"

definition hubspot_create_contact :: "env \<Rightarrow> contact \<Rightarrow> state \<Rightarrow> (exn + json) \<times> state" where
  "hubspot_create_contact env props st =
     (case hs_headers env of
        Inl e \<Rightarrow> (Inl e, st)
      | Inr hs \<Rightarrow>
          (case request_retry env
                  \<lparr>req_method = ''POST'',
                   req_url = HUBSPOT_API_BASE @ ''/crm/v3/objects/contacts'',
                   req_headers = hs, req_json = props_payload props\<rparr> st of
             (Inl e, st1) \<Rightarrow> (Inl e, st1)
           | (Inr r, st1) \<Rightarrow>
               if status_code r \<ge> 400
               then (Inl (HTTPException 502 (''HubSpot create error: '' @ resp_text r)), st1)
               else (case response_json r of
                       Inl e \<Rightarrow> (Inl e, st1)
                     | Inr j \<Rightarrow> (py_get j ''id'' (JStr ''''), st1))))"

definition hubspot_update_contact :: "env \<Rightarrow> json \<Rightarrow> contact \<Rightarrow> state \<Rightarrow> (exn + unit) \<times> state" where
  "hubspot_update_contact env contact_id props st =
     (case hs_headers env of
        Inl e \<Rightarrow> (Inl e, st)
      | Inr hs \<Rightarrow>
          (case request_retry env
                  \<lparr>req_method = ''PATCH'',
                   req_url = HUBSPOT_API_BASE @ ''/crm/v3/objects/contacts/''
                             @ format_id env contact_id,
                   req_headers = hs, req_json = props_payload props\<rparr> st of
             (Inl e, st1) \<Rightarrow> (Inl e, st1)
           | (Inr r, st1) \<Rightarrow>
               if status_code r \<ge> 400
               then (Inl (HTTPException 502 (''HubSpot update error: '' @ resp_text r)), st1)
               else (Inr (), st1)))"

text \<open>
  The three dictionaries \<open>upsert_contact_to_hubspot\<close> returns:
  \<open>{"skipped": True, "reason": ...}\<close>, \<open>{"updated": True, "id": cid}\<close> and
  \<open>{"created": True, "id": new_id}\<close>.
\<close>

datatype upsert_result = Skipped string | Updated json | Created json

definition upsert_contact_to_hubspot :: "env \<Rightarrow> contact \<Rightarrow> state \<Rightarrow> (exn + upsert_result) \<times> state" where
  "upsert_contact_to_hubspot env contact st =
     (let email = lower (strip (case map_of contact ''email'' of Some e \<Rightarrow> e | None \<Rightarrow> ''''))
      in if email = '''' then (Inr (Skipped ''missing email''), st)
         else
           (let props = filter (\<lambda>(k, v). v \<noteq> '''') contact
            in case hubspot_find_contact_by_email env email st of
                 (Inl e, st1) \<Rightarrow> (Inl e, st1)
               | (Inr cid, st1) \<Rightarrow>
                   if truthy cid
                   then (case hubspot_update_contact env cid props st1 of
                           (Inl e, st2) \<Rightarrow> (Inl e, st2)
                         | (Inr u, st2) \<Rightarrow> (Inr (Updated cid), st2))
                   else (case hubspot_create_contact env props st1 of
                           (Inl e, st2) \<Rightarrow> (Inl e, st2)
                         | (Inr new_id, st2) \<Rightarrow> (Inr (Created new_id), st2))))"

section \<open>The ingestion endpoint\<close>

record payload =
  spreadsheetId :: string
  sheetName :: string
  rowIndex :: int
  payload_headers :: "string list option"
  payload_values :: "string option list"
  payload_mapping :: "(string \<times> string) list option"

text \<open>
  The bodies the endpoint answers with: \<open>{"ok": True, "duplicate": True}\<close>,
  \<open>{"ok": True, "skipped": True, "reason": ...}\<close> and \<open>{"ok": True, "upsert": res}\<close>.
\<close>

datatype ingest_result = Duplicate | SkippedRow string | Upsert upsert_result

text \<open>\<open>action\<close> and \<open>res.get("id", "")\<close> of the upsert's result.\<close>

fun action_of :: "upsert_result \<Rightarrow> string" where
  "action_of (Updated i) = ''updated''"
| "action_of (Created i) = ''created''"
| "action_of (Skipped r) = ''unknown''"

fun id_of :: "upsert_result \<Rightarrow> json" where
  "id_of (Updated i) = i"
| "id_of (Created i) = i"
| "id_of (Skipped r) = JStr ''''"

text \<open>The block under \<open>try\<close>.\<close>

definition ingest_try ::
  "env \<Rightarrow> payload \<Rightarrow> string list \<Rightarrow> string option list \<Rightarrow> string \<Rightarrow> state
     \<Rightarrow> (exn + ingest_result) \<times> state" where
  "ingest_try env p headers vs rh st =
     (let contact = map_row_to_contact headers vs (payload_mapping p)
      in if (case map_of contact ''email'' of Some e \<Rightarrow> e = '''' | None \<Rightarrow> True)
         then (Inr (SkippedRow ''missing email''),
               st\<lparr>events := log_event (events st) (spreadsheetId p) (sheetName p) (rowIndex p) rh
                                ''skipped'' (JStr '''') ''missing email''\<rparr>)
         else
           (case upsert_contact_to_hubspot env contact st of
              (Inl e, st1) \<Rightarrow> (Inl e, st1)
            | (Inr res, st1) \<Rightarrow>
                (Inr (Upsert res),
                 st1\<lparr>events := log_event (events st1) (spreadsheetId p) (sheetName p) (rowIndex p) rh
                                   (action_of res) (id_of res) (str_contact env contact)\<rparr>)))"

text \<open>
  \<open>ingest_rows(payload, x_bridge_secret)\<close>. The handler \<open>except Exception as e\<close> logs
  the error and raises it again.
\<close>

definition ingest_rows ::
  "env \<Rightarrow> payload \<Rightarrow> string option \<Rightarrow> state \<Rightarrow> (exn + ingest_result) \<times> state" where
  "ingest_rows env p x_bridge_secret st =
     (if x_bridge_secret \<noteq> Some (BRIDGE_SECRET env)
      then (Inl (HTTPException 401 ''Invalid secret''), st)
      else
        (let headers = (case payload_headers p of Some hs \<Rightarrow> hs | None \<Rightarrow> []);
             vs = payload_values p;
             rh = row_hash headers vs
         in if already_processed (events st) (spreadsheetId p) (sheetName p) (rowIndex p) rh
            then (Inr Duplicate,
                  st\<lparr>events := log_event (events st) (spreadsheetId p) (sheetName p) (rowIndex p) rh
                                   ''duplicate'' (JStr '''') ''''\<rparr>)
            else
              (case ingest_try env p headers vs rh st of
                 (Inl e, st1) \<Rightarrow>
                   (Inl e,
                    st1\<lparr>events := log_event (events st1) (spreadsheetId p) (sheetName p) (rowIndex p) rh
                                      ''error'' (JStr '''') (repr_exc env e)\<rparr>)
               | (Inr res, st1) \<Rightarrow> (Inr res, st1))))"

section \<open>Calls in sequence\<close>


text \<open>
  An event is about the row of a payload when the four columns that \<open>already_processed\<close>
  compares are those \<open>ingest_rows\<close> computes from the payload.
\<close>

definition same_row :: "payload \<Rightarrow> event \<Rightarrow> bool" where
  "same_row p e =
     (spreadsheet_id e = spreadsheetId p \<and> sheet_name e = sheetName p
      \<and> row_index e = rowIndex p
      \<and> r_hash e = row_hash (case payload_headers p of Some hs \<Rightarrow> hs | None \<Rightarrow> [])
                             (payload_values p))"

section \<open>The file watcher\<close>

text \<open>
  \<open>watch_excel.py\<close>. The watcher's world is the file it watches, the decoders of the
  table library and the endpoint it posts to. \<open>wenv\<close> says what each of them does when
  asked, as a function of the number of times the world was asked before (\<open>ticks\<close>):
  \<open>path.stat()\<close> gives a size or raises, \<open>shutil.copyfile\<close> succeeds or not, a decoder
  gives a table or raises, \<open>tmp.unlink\<close> succeeds or not, \<open>requests.post\<close> gives a
  response or raises. Times are real numbers of seconds.
\<close>

definition READ_RETRIES :: nat where
  "READ_RETRIES = 40"

definition RETRY_DELAY_SECS :: real where
  "RETRY_DELAY_SECS = 0.75"

definition DEBOUNCE_SECS :: real where
  "DEBOUNCE_SECS = 1.0"

text \<open>A table: its column names and its rows of cells, a missing cell being \<open>None\<close>.\<close>

record dataframe =
  df_columns :: "string list"
  df_rows :: "string option list list"

text \<open>What the watcher prints, one constructor for each \<open>print\<close> of the handler's path.\<close>

datatype line =
  ChangeDetected | CouldNotRead | UnsupportedType string | NoRows | Posted int
  | ErrorBody string | ServerJson json | ServerText string | RequestFailed exn

record wenv =
  watch_suffix :: string
  target_name :: string
  stat_size :: "nat \<Rightarrow> exn + nat"
  copyfile :: "nat \<Rightarrow> bool"
  read_excel :: "nat \<Rightarrow> exn + dataframe"
  read_csv_utf8 :: "nat \<Rightarrow> exn + dataframe"
  read_csv_python :: "nat \<Rightarrow> exn + dataframe"
  unlink :: "nat \<Rightarrow> bool"
  post :: "nat \<Rightarrow> payload \<Rightarrow> exn + response"

text \<open>
  The state: the global \<open>_last_event\<close>, the count of questions asked of the world,
  whether the temporary copy is on disk, and what was printed, slept and posted so far.
\<close>

record wstate =
  last_event :: real
  ticks :: nat
  temp_exists :: bool
  printed :: "line list"
  slept :: "real list"
  posted :: "payload list"

definition tick :: "wstate \<Rightarrow> wstate" where
  "tick st = st\<lparr>ticks := Suc (ticks st)\<rparr>"

definition wsleep :: "real \<Rightarrow> wstate \<Rightarrow> wstate" where
  "wsleep d st = st\<lparr>slept := slept st @ [d]\<rparr>"

definition emit :: "line \<Rightarrow> wstate \<Rightarrow> wstate" where
  "emit l st = st\<lparr>printed := printed st @ [l]\<rparr>"

text \<open>
  The loop of \<open>wait_until_stable\<close>: the second argument is \<open>checks\<close>, the third
  \<open>interval\<close>, the fourth what is left of \<open>range(READ_RETRIES)\<close>, then \<open>last_size\<close> and
  \<open>stable\<close> (here \<open>stable_n\<close>). Only \<open>FileNotFoundError\<close> is caught.
\<close>

fun stable_loop ::
  "wenv \<Rightarrow> nat \<Rightarrow> real \<Rightarrow> nat \<Rightarrow> int \<Rightarrow> nat \<Rightarrow> wstate \<Rightarrow> (exn + bool) \<times> wstate" where
  "stable_loop env checks interval 0 last_size stable_n st = (Inr False, st)"
| "stable_loop env checks interval (Suc n) last_size stable_n st =
     (case stat_size env (ticks st) of
        Inl e \<Rightarrow>
          if e = PyError ''FileNotFoundError''
          then stable_loop env checks interval n last_size stable_n (wsleep interval (tick st))
          else (Inl e, tick st)
      | Inr sz \<Rightarrow>
          if int sz = last_size \<and> sz > 0
          then (if stable_n + 1 \<ge> checks then (Inr True, tick st)
                else stable_loop env checks interval n last_size (stable_n + 1)
                       (wsleep interval (tick st)))
          else stable_loop env checks interval n (int sz) 0 (wsleep interval (tick st)))"

definition wait_until_stable :: "wenv \<Rightarrow> wstate \<Rightarrow> (exn + bool) \<times> wstate" where
  "wait_until_stable env st = stable_loop env 3 0.3 READ_RETRIES (- 1) 0 st"

text \<open>The copy loop of \<open>copy_to_temp\<close>: every exception of the copy is caught.\<close>

fun copy_loop :: "wenv \<Rightarrow> nat \<Rightarrow> wstate \<Rightarrow> bool \<times> wstate" where
  "copy_loop env 0 st = (False, st)"
| "copy_loop env (Suc n) st =
     (if copyfile env (ticks st) then (True, (tick st)\<lparr>temp_exists := True\<rparr>)
      else copy_loop env n (wsleep RETRY_DELAY_SECS (tick st)))"

text \<open>
  \<open>copy_to_temp\<close> returns the path of the copy or \<open>None\<close>: here \<open>True\<close> or \<open>False\<close>, the
  path being always the watched one with \<open>.tmpcopy\<close> before its suffix.
\<close>

definition copy_to_temp :: "wenv \<Rightarrow> wstate \<Rightarrow> (exn + bool) \<times> wstate" where
  "copy_to_temp env st =
     (case wait_until_stable env st of
        (Inl e, st1) \<Rightarrow> (Inl e, st1)
      | (Inr False, st1) \<Rightarrow> (Inr False, st1)
      | (Inr True, st1) \<Rightarrow> (case copy_loop env READ_RETRIES st1 of (ok, st2) \<Rightarrow> (Inr ok, st2)))"

text \<open>The block under \<open>try\<close> of \<open>read_table_any\<close>: it has a \<open>finally\<close> and no \<open>except\<close>.\<close>

definition read_body :: "wenv \<Rightarrow> wstate \<Rightarrow> (exn + dataframe option) \<times> wstate" where
  "read_body env st =
     (let suf = lower (watch_suffix env)
      in if suf = ''.xlsx'' \<or> suf = ''.xls''
         then (case read_excel env (ticks st) of
                 Inl e \<Rightarrow> (Inl e, tick st)
               | Inr df \<Rightarrow> (Inr (Some df), tick st))
         else if suf = ''.csv''
         then (case read_csv_utf8 env (ticks st) of
                 Inr df \<Rightarrow> (Inr (Some df), tick st)
               | Inl e \<Rightarrow>
                   (case read_csv_python env (ticks (tick st)) of
                      Inl e' \<Rightarrow> (Inl e', tick (tick st))
                    | Inr df \<Rightarrow> (Inr (Some df), tick (tick st))))
         else (Inr None, emit (UnsupportedType suf) st))"

text \<open>The \<open>finally\<close>: \<open>tmp.unlink(missing_ok=True)\<close>, its own exceptions passed over.\<close>

definition unlink_temp :: "wenv \<Rightarrow> wstate \<Rightarrow> wstate" where
  "unlink_temp env st =
     (tick st)\<lparr>temp_exists := (if unlink env (ticks st) then False else temp_exists st)\<rparr>"

definition read_table_any :: "wenv \<Rightarrow> wstate \<Rightarrow> (exn + dataframe option) \<times> wstate" where
  "read_table_any env st =
     (case copy_to_temp env st of
        (Inl e, st1) \<Rightarrow> (Inl e, st1)
      | (Inr False, st1) \<Rightarrow> (Inr None, st1)
      | (Inr True, st1) \<Rightarrow>
          (case read_body env st1 of (res, st2) \<Rightarrow> (res, unlink_temp env st2)))"

text \<open>
  \<open>send_first_row\<close>: \<open>df.empty\<close> holds when the table has no column or no row; the request
  and the reading of its answer are under \<open>try\<close> with \<open>except Exception\<close>.
\<close>

definition send_first_row :: "wenv \<Rightarrow> dataframe \<Rightarrow> wstate \<Rightarrow> wstate" where
  "send_first_row env df st =
     (case df_rows df of
        [] \<Rightarrow> emit NoRows st
      | first # others \<Rightarrow>
          if df_columns df = [] then emit NoRows st
          else
            (let p = \<lparr>spreadsheetId = ''excel-desktop'', sheetName = ''Sheet1'', rowIndex = 0,
                      payload_headers = Some (df_columns df),
                      payload_values = map (\<lambda>c. Some (cell_text c)) first,
                      payload_mapping = None\<rparr>;
                 st1 = (tick st)\<lparr>posted := posted st @ [p]\<rparr>
             in case post env (ticks st) p of
                  Inl e \<Rightarrow> emit (RequestFailed e) st1
                | Inr r \<Rightarrow>
                    (let st2 = emit (Posted (status_code r)) st1
                     in if status_code r \<ge> 400 then emit (ErrorBody (take 500 (resp_text r))) st2
                        else (case resp_json r of
                                Some j \<Rightarrow> emit (ServerJson j) st2
                              | None \<Rightarrow> emit (ServerText (take 200 (resp_text r))) st2))))"

text \<open>\<open>handle_change\<close>; \<open>now\<close> is what \<open>time.monotonic()\<close> returns.\<close>

definition handle_change :: "wenv \<Rightarrow> real \<Rightarrow> wstate \<Rightarrow> (exn + unit) \<times> wstate" where
  "handle_change env now st =
     (if now - last_event st < DEBOUNCE_SECS then (Inr (), st)
      else
        (let st1 = emit ChangeDetected (st\<lparr>last_event := now\<rparr>)
         in case read_table_any env st1 of
              (Inl e, st2) \<Rightarrow> (Inl e, st2)
            | (Inr None, st2) \<Rightarrow> (Inr (), emit CouldNotRead st2)
            | (Inr (Some df), st2) \<Rightarrow> (Inr (), send_first_row env df st2)))"

text \<open>
  The events of the observer and \<open>FileHandler\<close>: the names are the last components of
  \<open>src_path\<close> and \<open>dest_path\<close>.
\<close>

datatype kind = FileModified | FileCreated | FileMoved | OtherEvent

record fs_event =
  ev_kind :: kind
  is_directory :: bool
  src_name :: string
  dest_name :: "string option"

text \<open>
  The three methods of \<open>FileHandler\<close> call \<open>handle_change\<close> under these tests:
  \<open>on_modified\<close> and \<open>on_created\<close> look at the source name, \<open>on_moved\<close> at the
  destination name (the source name when the event has none).
\<close>

definition for_target :: "wenv \<Rightarrow> fs_event \<Rightarrow> bool" where
  "for_target env ev =
     (case ev_kind ev of
        FileModified \<Rightarrow> \<not> is_directory ev \<and> src_name ev = target_name env
      | FileCreated \<Rightarrow> \<not> is_directory ev \<and> src_name ev = target_name env
      | FileMoved \<Rightarrow>
          \<not> is_directory ev
          \<and> (case dest_name ev of Some d \<Rightarrow> d | None \<Rightarrow> src_name ev) = target_name env
      | OtherEvent \<Rightarrow> False)"

definition dispatch :: "wenv \<Rightarrow> fs_event \<Rightarrow> real \<Rightarrow> wstate \<Rightarrow> (exn + unit) \<times> wstate" where
  "dispatch env ev now st =
     (if for_target env ev then handle_change env now st else (Inr (), st))"

text \<open>
  What an observer of the watcher sees. An event is accepted when the handler goes past
  the debounce test, which shows as a line printed. \<open>accepted_times\<close> runs the events one
  after the other, each with the clock's reading when it is handled, and lists the
  readings of the accepted ones; an exception out of the handler ends the run.
\<close>

definition accepts :: "wenv \<Rightarrow> fs_event \<Rightarrow> real \<Rightarrow> wstate \<Rightarrow> bool" where
  "accepts env ev now st = (printed (snd (dispatch env ev now st)) \<noteq> printed st)"

fun accepted_times :: "wenv \<Rightarrow> (fs_event \<times> real) list \<Rightarrow> wstate \<Rightarrow> real list" where
  "accepted_times env [] st = []"
| "accepted_times env ((ev, now) # rest) st =
     (if accepts env ev now st then [now] else [])
     @ (case dispatch env ev now st of
          (Inl e, st') \<Rightarrow> []
        | (Inr u, st') \<Rightarrow> accepted_times env rest st')"

section \<open>Concrete inputs for the examples\<close>

text \<open>
  A network that answers the \<open>n\<close>-th request with the \<open>n\<close>-th response of a script, and
  fails to connect once the script is used up; and an environment around it.
\<close>

definition scripted_net :: "response list \<Rightarrow> nat \<Rightarrow> request \<Rightarrow> exn + response" where
  "scripted_net script n req =
     (if n < length script then Inr (script ! n) else Inl (PyError ''ConnectionError''))"


definition example_env :: "response list \<Rightarrow> env" where
  "example_env script =
     \<lparr>BRIDGE_SECRET = ''change-me'', HUBSPOT_ACCESS_TOKEN = ''pat-example'',
      net = scripted_net script,
      format_id = (\<lambda>j. case j of JStr s \<Rightarrow> s | _ \<Rightarrow> ''''),
      str_contact = (\<lambda>c. concat (map (\<lambda>(k, v). k @ ''='' @ v @ '';'') c)),
      repr_exc = (\<lambda>e. case e of HTTPException code d \<Rightarrow> d | PyError name \<Rightarrow> name)\<rparr>"


definition empty_state :: state where
  "empty_state = \<lparr>events = [], trace = []\<rparr>"

text \<open>The payload the watcher posts for a sheet with one column.\<close>

definition example_payload :: payload where
  "example_payload =
     \<lparr>spreadsheetId = ''excel-desktop'', sheetName = ''Sheet1'', rowIndex = 0,
      payload_headers = Some [''Email''], payload_values = [Some ''a@b.com''],
      payload_mapping = None\<rparr>"

text \<open>A CRM that finds no contact for the search and creates one.\<close>

definition create_script :: "response list" where
  "create_script =
     [\<lparr>status_code = 200, resp_text = '''', resp_json = Some (JObj [(''results'', JArr [])])\<rparr>,
      \<lparr>status_code = 201, resp_text = '''', resp_json = Some (JObj [(''id'', JStr ''101'')])\<rparr>]"

text \<open>
  A watched workbook that is stable on disk and copies at once, and that the spreadsheet
  decoder rejects; the same for a CSV file that both decoders reject; and a change of the
  watched file at a given state of the debouncer.
\<close>

definition broken_xlsx :: wenv where
  "broken_xlsx =
     \<lparr>watch_suffix = ''.xlsx'', target_name = ''data.xlsx'',
      stat_size = (\<lambda>n. Inr 2048), copyfile = (\<lambda>n. True),
      read_excel = (\<lambda>n. Inl (PyError ''BadZipFile'')),
      read_csv_utf8 = (\<lambda>n. Inl (PyError ''TypeError'')),
      read_csv_python = (\<lambda>n. Inl (PyError ''EmptyDataError'')),
      unlink = (\<lambda>n. True), post = (\<lambda>n p. Inl (PyError ''ConnectionError''))\<rparr>"

definition broken_csv :: wenv where
  "broken_csv = broken_xlsx\<lparr>watch_suffix := ''.csv'', target_name := ''sample_contacts.csv''\<rparr>"

definition idle_at :: "real \<Rightarrow> wstate" where
  "idle_at t =
     \<lparr>last_event = t, ticks = 0, temp_exists = False, printed = [], slept = [], posted = []\<rparr>"

definition modified :: "string \<Rightarrow> fs_event" where
  "modified name =
     \<lparr>ev_kind = FileModified, is_directory = False, src_name = name, dest_name = None\<rparr>"

text \<open>A watched file that is not there: every \<open>stat\<close> raises \<open>FileNotFoundError\<close>.\<close>

definition missing_file :: wenv where
  "missing_file =
     broken_xlsx\<lparr>watch_suffix := ''.csv'', target_name := ''sample_contacts.csv'',
                  stat_size := (\<lambda>n. Inl (PyError ''FileNotFoundError''))\<rparr>"

section \<open>Facts about the text primitives\<close>

lemma of_char_less_256: "(of_char c :: nat) < 256"
  by (metis of_char_mod_256 mod_less_divisor zero_less_numeral)

lemma isspace_lower_char: "isspace (lower_char c) = isspace c"
  using of_char_less_256 [of c]
  by (auto simp: isspace_def lower_char_def Let_def)

lemma lower_char_idem: "lower_char (lower_char c) = lower_char c"
  using of_char_less_256 [of c]
  by (auto simp: lower_char_def Let_def)

lemma lower_idem: "lower (lower s) = lower s"
  by (simp add: lower_def lower_char_idem)

lemma lower_eq_Nil: "lower s = [] \<longleftrightarrow> s = []"
  by (simp add: lower_def)

lemma dropWhile_isspace_lower:
  "dropWhile isspace (map lower_char s) = map lower_char (dropWhile isspace s)"
  by (induction s) (auto simp: isspace_lower_char)

lemma strip_lower: "strip (lower s) = lower (strip s)"
  by (simp add: strip_def lower_def rev_map dropWhile_isspace_lower)

lemma dropWhile_trim_end:
  assumes "dropWhile P xs = xs"
  shows "dropWhile P (rev (dropWhile P (rev xs))) = rev (dropWhile P (rev xs))"
proof (cases "dropWhile P (rev xs)")
  case Nil
  show ?thesis unfolding Nil by simp
next
  case (Cons z zs)
  obtain ws where ws: "xs = rev (dropWhile P (rev xs)) @ ws"
    by (metis rev_append rev_rev_ident takeWhile_dropWhile_id)
  have ne: "rev (dropWhile P (rev xs)) \<noteq> []"
    using Cons by simp
  then have "hd (rev (dropWhile P (rev xs))) = hd xs"
    using ws by (metis hd_append2)
  moreover have "xs \<noteq> []"
    using ne ws by auto
  with assms have "\<not> P (hd xs)"
    by (metis hd_dropWhile)
  ultimately show ?thesis
    using ne by (simp add: dropWhile_eq_self_iff)
qed

lemma strip_idem: "strip (strip s) = strip s"
  by (simp add: strip_def dropWhile_trim_end)

lemma strip_Nil: "strip [] = []"
  by (simp add: strip_def)

lemma lower_strip_idem: "lower (strip (lower (strip s))) = lower (strip s)"
  by (simp add: strip_lower strip_idem lower_idem)

lemma index_of_first:
  "x \<in> set xs \<Longrightarrow>
     index_of xs x < length xs \<and> xs ! index_of xs x = x \<and> (\<forall>j < index_of xs x. xs ! j \<noteq> x)"
proof (induction xs)
  case Nil
  then show ?case by simp
next
  case (Cons y ys)
  show ?case
  proof (cases "y = x")
    case True
    then show ?thesis by simp
  next
    case False
    with Cons have ih: "index_of ys x < length ys \<and> ys ! index_of ys x = x
        \<and> (\<forall>j < index_of ys x. ys ! j \<noteq> x)"
      by simp
    show ?thesis
      using False ih by (auto simp: less_Suc_eq_0_disj)
  qed
qed

section \<open>Facts about the fingerprint\<close>

lemma encode_utf8_append: "encode_utf8 (a @ b) = encode_utf8 a @ encode_utf8 b"
  by (simp add: encode_utf8_def)

lemma utf8_char_prefix:
  assumes "utf8_char c @ xs = utf8_char d @ ys"
  shows "c = d \<and> xs = ys"
proof -
  let ?m = "of_char c :: nat" and ?n = "of_char d :: nat"
  have m: "?m = 64 * (?m div 64) + ?m mod 64" and n: "?n = 64 * (?n div 64) + ?n mod 64"
    by simp_all
  have "?m = ?n \<and> xs = ys"
  proof (cases "?m < 128")
    case True
    with assms show ?thesis
      by (cases "?n < 128") (auto simp: utf8_char_def Let_def)
  next
    case False
    with assms have n128: "\<not> ?n < 128"
      by (cases "?n < 128") (auto simp: utf8_char_def Let_def)
    with False assms have "?m div 64 = ?n div 64" "?m mod 64 = ?n mod 64" "xs = ys"
      by (auto simp: utf8_char_def Let_def)
    with m n show ?thesis by metis
  qed
  then show ?thesis by simp
qed

lemma encode_utf8_inj: "encode_utf8 s = encode_utf8 t \<Longrightarrow> s = t"
proof (induction s arbitrary: t)
  case Nil
  then show ?case
    by (cases t) (auto simp: encode_utf8_def utf8_char_def Let_def split: if_splits)
next
  case (Cons c s)
  show ?case
  proof (cases t)
    case Nil
    with Cons.prems show ?thesis
      by (auto simp: encode_utf8_def utf8_char_def Let_def split: if_splits)
  next
    case (Cons d t')
    with Cons.prems have "utf8_char c @ encode_utf8 s = utf8_char d @ encode_utf8 t'"
      by (simp add: encode_utf8_def)
    from utf8_char_prefix [OF this] Cons.IH Cons show ?thesis by auto
  qed
qed

lemma split_at_delimiter:
  assumes "x @ c # r = y @ c # r'" and "c \<notin> set x" and "c \<notin> set y"
  shows "x = y \<and> r = r'"
  using assms
proof (induction x arbitrary: y)
  case Nil
  then show ?case by (cases y) auto
next
  case (Cons a x)
  then show ?case by (cases y) auto
qed

lemma join_inj:
  assumes "length xs = length ys"
    and "\<forall>x \<in> set xs. CHR ''|'' \<notin> set x" and "\<forall>y \<in> set ys. CHR ''|'' \<notin> set y"
    and "join ''|'' xs = join ''|'' ys"
  shows "xs = ys"
  using assms
proof (induction xs ys rule: list_induct2)
  case Nil
  then show ?case by simp
next
  case (Cons x xs y ys)
  show ?case
  proof (cases xs)
    case Nil
    with Cons show ?thesis by simp
  next
    case (Cons x' xs')
    with Cons.hyps obtain y' ys' where ys: "ys = y' # ys'"
      by (cases ys) auto
    from Cons.prems(3) Cons ys
    have "x @ CHR ''|'' # join ''|'' xs = y @ CHR ''|'' # join ''|'' ys"
      by simp
    from split_at_delimiter [OF this] Cons.prems(1,2)
    have "x = y" "join ''|'' xs = join ''|'' ys"
      by simp_all
    with Cons.IH Cons.prems(1,2) show ?thesis by simp
  qed
qed

section \<open>Facts about the row mapper\<close>

lemma empty_contact_distinct: "distinct (map fst empty_contact)"
  by (simp add: empty_contact_def)

lemma empty_contact_values: "map_of empty_contact k = Some v \<Longrightarrow> v = ''''"
  by (auto simp: empty_contact_def split: if_splits)

lemma apply_mapping_distinct:
  "distinct (map fst c) \<Longrightarrow> distinct (map fst (apply_mapping lm hn vals c))"
  by (induction lm hn vals c rule: apply_mapping.induct) (simp_all add: Let_def distinct_update)

lemma apply_mapping_dom:
  "k \<in> fst ` set c \<Longrightarrow> k \<in> fst ` set (apply_mapping lm hn vals c)"
  by (induction lm hn vals c rule: apply_mapping.induct) (simp_all add: Let_def dom_update)

lemma apply_mapping_map_of:
  "map_of (apply_mapping lm hn vals c) k = Some v \<Longrightarrow>
     map_of c k = Some v
     \<or> (\<exists>w. (k, w) \<in> set lm \<and> w \<in> set hn \<and> index_of hn w < length vals
              \<and> v = vals ! index_of hn w)"
proof (induction lm hn vals c rule: apply_mapping.induct)
  case (1 hnorm vals c)
  then show ?case by simp
next
  case (2 p w rest hnorm vals c)
  let ?c' = "if w \<in> set hnorm
        then (let idx = index_of hnorm w
              in if idx < length vals then AList.update p (vals ! idx) c else c)
        else c"
  from "2.prems" have "map_of (apply_mapping rest hnorm vals ?c') k = Some v"
    by simp
  from "2.IH" [OF this] show ?case
    by (auto simp: Let_def update_conv' split: if_splits)
qed

lemma scan_headers_distinct:
  "distinct (map fst c) \<Longrightarrow> distinct (map fst (scan_headers p as es vals c))"
  by (induction p as es vals c rule: scan_headers.induct) (simp_all add: distinct_update)

lemma scan_headers_dom:
  "k \<in> fst ` set c \<Longrightarrow> k \<in> fst ` set (scan_headers p as es vals c)"
  by (induction p as es vals c rule: scan_headers.induct) (simp_all add: dom_update)

lemma scan_headers_other:
  "k \<noteq> p \<Longrightarrow> map_of (scan_headers p as es vals c) k = map_of c k"
  by (induction p as es vals c rule: scan_headers.induct) (simp_all add: update_conv')

lemma scan_headers_cong:
  "map_of c p = map_of c' p \<Longrightarrow>
     map_of (scan_headers p as es vals c) p = map_of (scan_headers p as es vals c') p"
  by (induction p as es vals c rule: scan_headers.induct) (simp_all add: update_conv')

lemma scan_headers_miss:
  "\<forall>h \<in> set hn. h \<notin> norm_key ` set aliases \<Longrightarrow>
     scan_headers prop aliases (enumerate n hn) vals c = c"
  by (induction hn arbitrary: n) simp_all

lemma scan_headers_hit:
  "i < length hn \<Longrightarrow> hn ! i \<in> norm_key ` set aliases \<Longrightarrow>
   \<forall>j < i. hn ! j \<notin> norm_key ` set aliases \<Longrightarrow>
     scan_headers prop aliases (enumerate n hn) vals c =
       (if n + i < length vals then AList.update prop (vals ! (n + i)) c else c)"
proof (induction hn arbitrary: n i)
  case Nil
  then show ?case by simp
next
  case (Cons h hn)
  show ?case
  proof (cases i)
    case 0
    with Cons.prems show ?thesis by simp
  next
    case (Suc i')
    from Cons.prems Suc have h: "h \<notin> norm_key ` set aliases"
      by (metis nth_Cons_0 zero_less_Suc)
    from Cons.prems Suc have "i' < length hn" "hn ! i' \<in> norm_key ` set aliases"
      "\<forall>j < i'. hn ! j \<notin> norm_key ` set aliases"
      by auto
    from Cons.IH [OF this, of "Suc n"] h Suc show ?thesis
      by simp
  qed
qed

lemma apply_aliases_distinct:
  "distinct (map fst c) \<Longrightarrow> distinct (map fst (apply_aliases al hn vals c))"
  by (induction al hn vals c rule: apply_aliases.induct) (simp_all add: scan_headers_distinct)

lemma apply_aliases_dom:
  "k \<in> fst ` set c \<Longrightarrow> k \<in> fst ` set (apply_aliases al hn vals c)"
  by (induction al hn vals c rule: apply_aliases.induct) (simp_all add: scan_headers_dom)

lemma apply_aliases_other:
  "k \<notin> fst ` set al \<Longrightarrow> map_of (apply_aliases al hn vals c) k = map_of c k"
  by (induction al hn vals c rule: apply_aliases.induct) (auto simp: scan_headers_other)

lemma apply_aliases_at:
  "distinct (map fst al) \<Longrightarrow> (prop, aliases) \<in> set al \<Longrightarrow>
     map_of (apply_aliases al hn vals c) prop =
     map_of (scan_headers prop aliases (enumerate 0 hn) vals c) prop"
proof (induction al hn vals c rule: apply_aliases.induct)
  case (1 hnorm vals c)
  then show ?case by simp
next
  case (2 p a rest hnorm vals c)
  show ?case
  proof (cases "(prop, aliases) = (p, a)")
    case True
    with "2.prems" have "prop \<notin> fst ` set rest" by auto
    with True show ?thesis by (simp add: apply_aliases_other)
  next
    case False
    with "2.prems" have mem: "(prop, aliases) \<in> set rest" and ne: "prop \<noteq> p"
      by (auto simp: rev_image_eqI)
    from "2.prems" have "distinct (map fst rest)" by simp
    have "map_of (scan_headers prop aliases (enumerate 0 hnorm) vals
                    (scan_headers p a (enumerate 0 hnorm) vals c)) prop =
          map_of (scan_headers prop aliases (enumerate 0 hnorm) vals c) prop"
      using ne by (intro scan_headers_cong) (simp add: scan_headers_other)
    with "2.IH" [OF \<open>distinct (map fst rest)\<close> mem] show ?thesis
      by simp
  qed
qed

text \<open>
  What \<open>finish_contact\<close> keeps: the fields whose text, the email stripped and lowered, is
  not empty.
\<close>

lemma finish_contact_set:
  assumes "distinct (map fst c)" and "''email'' \<in> fst ` set c"
  shows "(k, v) \<in> set (finish_contact c) \<longleftrightarrow>
           v \<noteq> '''' \<and> (\<exists>x. map_of c k = Some x
                           \<and> v = (if k = ''email'' then lower (strip x) else x))"
proof -
  from assms(2) obtain e where e: "map_of c ''email'' = Some e"
    by (metis domD dom_map_of_conv_image_fst)
  let ?c' = "AList.update ''email'' (lower (strip e)) c"
  have d: "distinct (map fst ?c')"
    using assms(1) by (rule distinct_update)
  have "(k, v) \<in> set (finish_contact c) \<longleftrightarrow> v \<noteq> '''' \<and> (k, v) \<in> set ?c'"
    using e by (auto simp: finish_contact_def)
  also have "(k, v) \<in> set ?c' \<longleftrightarrow> map_of ?c' k = Some v"
    using d by simp
  also have "map_of ?c' k = Some v \<longleftrightarrow>
      (\<exists>x. map_of c k = Some x \<and> v = (if k = ''email'' then lower (strip x) else x))"
    using e by (auto simp: update_conv')
  finally show ?thesis .
qed

lemma finish_contact_distinct:
  "distinct (map fst c) \<Longrightarrow> distinct (map fst (finish_contact c))"
  by (simp add: finish_contact_def Let_def distinct_map_filter distinct_update)

lemma finish_contact_nonempty:
  "filter (\<lambda>(k, v). v \<noteq> '''') (finish_contact c) = finish_contact c"
  by (simp add: finish_contact_def Let_def)

lemma finish_contact_map_of:
  assumes "distinct (map fst c)" and "''email'' \<in> fst ` set c"
  shows "map_of (finish_contact c) k =
           (case map_of c k of
              None \<Rightarrow> None
            | Some x \<Rightarrow>
                (let y = (if k = ''email'' then lower (strip x) else x)
                 in if y = '''' then None else Some y))"
proof (cases "map_of (finish_contact c) k")
  case None
  have "\<not> (\<exists>v. (k, v) \<in> set (finish_contact c))"
    using None by (metis map_of_eq_None_iff fst_conv image_eqI)
  then show ?thesis
    using None finish_contact_set [OF assms, of k]
    by (auto simp: Let_def split: option.splits)
next
  case (Some v)
  then have "(k, v) \<in> set (finish_contact c)"
    by (rule map_of_SomeD)
  then show ?thesis
    using Some finish_contact_set [OF assms, of k v]
    by (auto simp: Let_def split: option.splits)
qed

text \<open>The dictionary the two branches of the mapper hand to \<open>finish_contact\<close>.\<close>

lemma explicit_raw:
  "distinct (map fst (apply_mapping lm hn vals empty_contact))
   \<and> ''email'' \<in> fst ` set (apply_mapping lm hn vals empty_contact)"
  by (simp add: apply_mapping_distinct empty_contact_distinct apply_mapping_dom empty_contact_def)

lemma heuristic_raw:
  "distinct (map fst (apply_aliases al hn vals empty_contact))
   \<and> ''email'' \<in> fst ` set (apply_aliases al hn vals empty_contact)"
  by (simp add: apply_aliases_distinct empty_contact_distinct apply_aliases_dom empty_contact_def)

lemma map_row_to_contact_explicit:
  "m \<noteq> [] \<Longrightarrow>
     map_row_to_contact headers vs (Some m) =
       finish_contact
         (apply_mapping
            (map (\<lambda>(k, v). (k, norm_key v)) (filter (\<lambda>(k, v). k \<in> fst ` set empty_contact) m))
            (map norm_key headers) (map cell_text vs) empty_contact)"
  by (cases m) (simp_all add: map_row_to_contact_def Let_def)

lemma map_row_to_contact_heuristic:
  "map_row_to_contact headers vs None =
     finish_contact
       (apply_aliases HEADER_ALIASES (map norm_key headers) (map cell_text vs) empty_contact)"
  by (simp add: map_row_to_contact_def Let_def)

lemma map_row_to_contact_empty:
  "map_row_to_contact headers vs (Some []) = map_row_to_contact headers vs None"
  by (simp add: map_row_to_contact_def)

lemma map_row_to_contact_cases:
  "\<exists>raw. map_row_to_contact headers vs mapping = finish_contact raw
         \<and> distinct (map fst raw) \<and> ''email'' \<in> fst ` set raw"
proof (cases mapping)
  case None
  then show ?thesis
    using heuristic_raw map_row_to_contact_heuristic by blast
next
  case (Some m)
  show ?thesis
  proof (cases "m = []")
    case True
    with Some show ?thesis
      using heuristic_raw map_row_to_contact_heuristic map_row_to_contact_empty by metis
  next
    case False
    with Some show ?thesis
      using explicit_raw map_row_to_contact_explicit by blast
  qed
qed

lemma mapped_contact_fields:
  assumes "(k, v) \<in> set (map_row_to_contact headers vs mapping)"
  shows "v \<noteq> ''''" and "k = ''email'' \<Longrightarrow> lower (strip v) = v"
proof -
  obtain raw where raw: "map_row_to_contact headers vs mapping = finish_contact raw"
      "distinct (map fst raw)" "''email'' \<in> fst ` set raw"
    using map_row_to_contact_cases by blast
  from assms raw finish_contact_set [OF raw(2,3), of k v]
  have v: "v \<noteq> ''''" and x: "\<exists>x. map_of raw k = Some x
      \<and> v = (if k = ''email'' then lower (strip x) else x)"
    by auto
  show "v \<noteq> ''''" by (rule v)
  show "lower (strip v) = v" if "k = ''email''"
    using x that by (auto simp: lower_strip_idem)
qed

lemma mapped_contact_distinct: "distinct (map fst (map_row_to_contact headers vs mapping))"
  using map_row_to_contact_cases [of headers vs mapping] finish_contact_distinct by metis

lemma mapped_contact_props:
  "filter (\<lambda>(k, v). v \<noteq> '''') (map_row_to_contact headers vs mapping)
     = map_row_to_contact headers vs mapping"
  using map_row_to_contact_cases [of headers vs mapping] finish_contact_nonempty by metis

lemma header_aliases_keys: "fst ` set HEADER_ALIASES = fst ` set empty_contact"
  by (simp add: HEADER_ALIASES_def empty_contact_def)

lemma header_aliases_distinct: "distinct (map fst HEADER_ALIASES)"
  by (simp add: HEADER_ALIASES_def)

lemma empty_contact_map_of:
  "k \<in> fst ` set empty_contact \<Longrightarrow> map_of empty_contact k = Some ''''"
  by (auto simp: empty_contact_def)

lemma heuristic_raw_at:
  assumes "(p, as) \<in> set HEADER_ALIASES"
  shows "map_of (apply_aliases HEADER_ALIASES hn vals empty_contact) p =
           map_of (scan_headers p as (enumerate 0 hn) vals empty_contact) p"
  using assms by (intro apply_aliases_at header_aliases_distinct)

section \<open>Facts about the retrying transport\<close>

lemma send_request_simps:
  "fst (send_request env req st) = net env (length (filter is_sent (trace st))) req"
  "snd (send_request env req st) = st\<lparr>trace := trace st @ [Sent req]\<rparr>"
  by (simp_all add: send_request_def)

lemma retry_loop_sent:
  "Sent q \<in> set (trace (snd (retry_loop env req as prev st))) \<Longrightarrow>
     Sent q \<in> set (trace st) \<or> q = req"
proof (induction env req as prev st rule: retry_loop.induct)
  case (1 env req r st)
  then show ?case by (simp split: option.splits)
next
  case (2 env req attempt rest r st)
  show ?case
  proof (cases "net env (length (filter is_sent (trace st))) req")
    case (Inl e)
    with "2.prems" show ?thesis
      by (auto simp: send_request_def)
  next
    case (Inr r')
    show ?thesis
    proof (cases "status_code r' < 500 \<and> status_code r' \<noteq> 429")
      case True
      with Inr "2.prems" show ?thesis
        by (auto simp: send_request_def)
    next
      case False
      let ?st1 = "st\<lparr>trace := trace st @ [Sent req]\<rparr>"
      let ?st2 = "sleep (min (0.5 * 2 ^ attempt) 6) ?st1"
      from False Inr "2.prems"
      have "Sent q \<in> set (trace (snd (retry_loop env req rest (Some r') ?st2)))"
        by (auto simp: send_request_def)
      moreover have "(Inr r', ?st1) = send_request env req st"
        using Inr by (simp add: send_request_def)
      ultimately have "Sent q \<in> set (trace ?st2) \<or> q = req"
        using "2.IH" False by blast
      then show ?thesis
        by (auto simp: sleep_def)
    qed
  qed
qed

lemma retry_loop_events:
  "events (snd (retry_loop env req as prev st)) = events st"
proof (induction env req as prev st rule: retry_loop.induct)
  case (1 env req r st)
  then show ?case by (simp split: option.splits)
next
  case (2 env req attempt rest r st)
  show ?case
  proof (cases "net env (length (filter is_sent (trace st))) req")
    case (Inl e)
    then show ?thesis
      by (simp add: send_request_def)
  next
    case (Inr r')
    show ?thesis
    proof (cases "status_code r' < 500 \<and> status_code r' \<noteq> 429")
      case True
      with Inr show ?thesis
        by (simp add: send_request_def)
    next
      case False
      let ?st1 = "st\<lparr>trace := trace st @ [Sent req]\<rparr>"
      let ?st2 = "sleep (min (0.5 * 2 ^ attempt) 6) ?st1"
      have "(Inr r', ?st1) = send_request env req st"
        using Inr by (simp add: send_request_def)
      then have "events (snd (retry_loop env req rest (Some r') ?st2)) = events ?st2"
        using "2.IH" False by blast
      with False Inr show ?thesis
        by (simp add: send_request_def sleep_def)
    qed
  qed
qed


section \<open>Facts about the CRM client\<close>

lemma request_retry_effect:
  assumes "request_retry env req st = (x, st')"
  shows "events st' = events st"
    and "Sent q \<in> set (trace st') \<Longrightarrow> Sent q \<in> set (trace st) \<or> q = req"
proof -
  have st': "st' = snd (retry_loop env req [0..<5] None st)"
    using assms by (simp add: request_retry_def)
  show "events st' = events st"
    unfolding st' by (rule retry_loop_events)
  show "Sent q \<in> set (trace st') \<Longrightarrow> Sent q \<in> set (trace st) \<or> q = req"
    unfolding st' by (rule retry_loop_sent)
qed

lemma find_contact_effect:
  assumes "hubspot_find_contact_by_email env email st = (x, st')"
  shows "events st' = events st"
    and "Sent q \<in> set (trace st') \<Longrightarrow> Sent q \<in> set (trace st) \<or> req_json q = search_payload email"
  using assms
  by (auto simp: hubspot_find_contact_by_email_def split: sum.splits prod.splits if_splits
      dest: request_retry_effect)

lemma create_contact_effect:
  assumes "hubspot_create_contact env props st = (x, st')"
  shows "events st' = events st"
    and "Sent q \<in> set (trace st') \<Longrightarrow> Sent q \<in> set (trace st) \<or> req_json q = props_payload props"
  using assms
  by (auto simp: hubspot_create_contact_def split: sum.splits prod.splits if_splits
      dest: request_retry_effect)

lemma update_contact_effect:
  assumes "hubspot_update_contact env cid props st = (x, st')"
  shows "events st' = events st"
    and "Sent q \<in> set (trace st') \<Longrightarrow> Sent q \<in> set (trace st) \<or> req_json q = props_payload props"
  using assms
  by (auto simp: hubspot_update_contact_def split: sum.splits prod.splits if_splits
      dest: request_retry_effect)

lemma upsert_effect:
  assumes "upsert_contact_to_hubspot env contact st = (x, st')"
  shows "events st' = events st"
    and "Sent q \<in> set (trace st') \<Longrightarrow>
           Sent q \<in> set (trace st)
           \<or> req_json q = search_payload
                (lower (strip (case map_of contact ''email'' of Some e \<Rightarrow> e | None \<Rightarrow> '''')))
           \<or> req_json q = props_payload (filter (\<lambda>(k, v). v \<noteq> '''') contact)"
proof -
  let ?email = "lower (strip (case map_of contact ''email'' of Some e \<Rightarrow> e | None \<Rightarrow> ''''))"
  let ?props = "filter (\<lambda>(k, v). v \<noteq> '''') contact"
  obtain y st1 where f: "hubspot_find_contact_by_email env ?email st = (y, st1)"
    by (cases "hubspot_find_contact_by_email env ?email st") auto
  obtain z st2 where u: "hubspot_update_contact env (projr y) ?props st1 = (z, st2)"
    by (cases "hubspot_update_contact env (projr y) ?props st1") auto
  obtain w st3 where c: "hubspot_create_contact env ?props st1 = (w, st3)"
    by (cases "hubspot_create_contact env ?props st1") auto
  from assms f u c have "st' = st \<or> st' = st1 \<or> st' = st2 \<or> st' = st3"
    by (auto simp: upsert_contact_to_hubspot_def Let_def split: sum.splits if_splits)
  moreover note find_contact_effect [OF f] update_contact_effect [OF u]
    create_contact_effect [OF c]
  ultimately show "events st' = events st"
    and "Sent q \<in> set (trace st') \<Longrightarrow>
           Sent q \<in> set (trace st) \<or> req_json q = search_payload ?email
           \<or> req_json q = props_payload ?props"
    by auto
qed

lemma upsert_skipped_iff:
  "(\<exists>reason. fst (upsert_contact_to_hubspot env contact st) = Inr (Skipped reason)) \<longleftrightarrow>
     lower (strip (case map_of contact ''email'' of Some e \<Rightarrow> e | None \<Rightarrow> '''')) = ''''"
  by (auto simp: upsert_contact_to_hubspot_def Let_def split: sum.splits prod.splits if_splits)

section \<open>Facts about the ingestion endpoint\<close>

lemma already_processed_iff:
  "already_processed db sid sname ridx rh \<longleftrightarrow>
     (\<exists>e \<in> set db. spreadsheet_id e = sid \<and> sheet_name e = sname
                    \<and> row_index e = ridx \<and> r_hash e = rh)"
  by (simp add: already_processed_def list_ex_iff)

lemma log_event_append:
  "\<exists>e. log_event db sid sname ridx rh act hid det = db @ [e]
       \<and> spreadsheet_id e = sid \<and> sheet_name e = sname \<and> row_index e = ridx
       \<and> r_hash e = rh \<and> action e = act"
  by (simp add: log_event_def)

lemma action_of_cases: "action_of res \<in> {''updated'', ''created'', ''unknown''}"
  by (cases res) simp_all

text \<open>
  An upsert of a contact that came out of the mapper with an email is never skipped.
\<close>

lemma mapped_upsert_not_skipped:
  assumes "map_of (map_row_to_contact headers vs mapping) ''email'' = Some e"
  shows "fst (upsert_contact_to_hubspot env (map_row_to_contact headers vs mapping) st)
           \<noteq> Inr (Skipped reason)"
proof -
  from assms have mem: "(''email'', e) \<in> set (map_row_to_contact headers vs mapping)"
    by (rule map_of_SomeD)
  from mapped_contact_fields [OF mem] have "e \<noteq> ''''" "lower (strip e) = e"
    by simp_all
  with assms upsert_skipped_iff [of env "map_row_to_contact headers vs mapping" st]
  show ?thesis by auto
qed

text \<open>What the block under \<open>try\<close> does to the log and to the trace.\<close>

lemma ingest_try_effect:
  assumes "ingest_try env p headers vs rh st = (x, st')"
  shows "(\<exists>e. x = Inl e \<and> events st' = events st)
       \<or> (\<exists>res ev. x = Inr res \<and> events st' = events st @ [ev]
             \<and> spreadsheet_id ev = spreadsheetId p \<and> sheet_name ev = sheetName p
             \<and> row_index ev = rowIndex p \<and> r_hash ev = rh
             \<and> action ev \<in> {''skipped'', ''updated'', ''created''})"
proof -
  let ?c = "map_row_to_contact headers vs (payload_mapping p)"
  show ?thesis
  proof (cases "map_of ?c ''email''")
    case None
    with assms log_event_append [of "events st" "spreadsheetId p" "sheetName p" "rowIndex p" rh
        "''skipped''" "JStr ''''" "''missing email''"]
    show ?thesis
      by (auto simp: ingest_try_def Let_def)
  next
    case (Some e)
    from Some have "(''email'', e) \<in> set ?c" by (rule map_of_SomeD)
    from mapped_contact_fields(1) [OF this] have ne: "e \<noteq> ''''" .
    obtain y st1 where u: "upsert_contact_to_hubspot env ?c st = (y, st1)"
      by (cases "upsert_contact_to_hubspot env ?c st") auto
    from upsert_effect(1) [OF u] have ev: "events st1 = events st" .
    show ?thesis
    proof (cases y)
      case (Inl err)
      with assms Some ne u ev show ?thesis
        by (auto simp: ingest_try_def Let_def)
    next
      case (Inr res)
      from mapped_upsert_not_skipped [OF Some, of env st] u Inr
      have "\<forall>reason. res \<noteq> Skipped reason" by auto
      then have act: "action_of res \<in> {''updated'', ''created''}"
        by (cases res) auto
      from log_event_append [of "events st1" "spreadsheetId p" "sheetName p" "rowIndex p" rh
        "action_of res" "id_of res" "str_contact env ?c"]
      obtain e' where "log_event (events st1) (spreadsheetId p) (sheetName p) (rowIndex p) rh
          (action_of res) (id_of res) (str_contact env ?c) = events st1 @ [e']"
        "spreadsheet_id e' = spreadsheetId p" "sheet_name e' = sheetName p"
        "row_index e' = rowIndex p" "r_hash e' = rh" "action e' = action_of res"
        by blast
      with assms Some ne u ev Inr act show ?thesis
        by (auto simp: ingest_try_def Let_def)
    qed
  qed
qed

lemma ingest_try_trace_skipped:
  assumes "ingest_try env p headers vs rh st = (Inr (SkippedRow reason), st')"
  shows "trace st' = trace st"
  using assms
  by (auto simp: ingest_try_def Let_def split: option.splits if_splits sum.splits prod.splits)

lemma ingest_rows_unauthorised:
  "x \<noteq> Some (BRIDGE_SECRET env) \<Longrightarrow>
     ingest_rows env p x st = (Inl (HTTPException 401 ''Invalid secret''), st)"
  by (simp add: ingest_rows_def)

lemma ingest_rows_effect:
  assumes "ingest_rows env p (Some (BRIDGE_SECRET env)) st = (res, st')"
  shows "\<exists>ev. events st' = events st @ [ev] \<and> same_row p ev
           \<and> (action ev = ''duplicate'' \<longleftrightarrow> (\<exists>e \<in> set (events st). same_row p e))
           \<and> action ev \<in> {''duplicate'', ''skipped'', ''updated'', ''created'', ''error''}"
    and "(\<exists>e \<in> set (events st). same_row p e) \<Longrightarrow> res = Inr Duplicate \<and> trace st' = trace st"
proof -
  let ?hs = "case payload_headers p of Some hs \<Rightarrow> hs | None \<Rightarrow> []"
  let ?rh = "row_hash ?hs (payload_values p)"
  have seen: "already_processed (events st) (spreadsheetId p) (sheetName p) (rowIndex p) ?rh
      \<longleftrightarrow> (\<exists>e \<in> set (events st). same_row p e)"
    by (auto simp: already_processed_iff same_row_def)
  show "res = Inr Duplicate \<and> trace st' = trace st" if "\<exists>e \<in> set (events st). same_row p e"
    using that seen assms by (auto simp: ingest_rows_def Let_def)
  show "\<exists>ev. events st' = events st @ [ev] \<and> same_row p ev
           \<and> (action ev = ''duplicate'' \<longleftrightarrow> (\<exists>e \<in> set (events st). same_row p e))
           \<and> action ev \<in> {''duplicate'', ''skipped'', ''updated'', ''created'', ''error''}"
  proof (cases "\<exists>e \<in> set (events st). same_row p e")
    case True
    from log_event_append [of "events st" "spreadsheetId p" "sheetName p" "rowIndex p" ?rh
        "''duplicate''" "JStr ''''" "''''"]
    obtain ev where "log_event (events st) (spreadsheetId p) (sheetName p) (rowIndex p) ?rh
          ''duplicate'' (JStr '''') '''' = events st @ [ev]"
        "spreadsheet_id ev = spreadsheetId p" "sheet_name ev = sheetName p"
        "row_index ev = rowIndex p" "r_hash ev = ?rh" "action ev = ''duplicate''"
      by blast
    with True seen assms show ?thesis
      by (auto simp: ingest_rows_def Let_def same_row_def)
  next
    case False
    obtain y st1 where t: "ingest_try env p ?hs (payload_values p) ?rh st = (y, st1)"
      by (cases "ingest_try env p ?hs (payload_values p) ?rh st") auto
    show ?thesis
    proof (cases y)
      case (Inl err)
      with ingest_try_effect [OF t] have ev1: "events st1 = events st" by auto
      from log_event_append [of "events st1" "spreadsheetId p" "sheetName p" "rowIndex p" ?rh
          "''error''" "JStr ''''" "repr_exc env err"]
      obtain ev where "log_event (events st1) (spreadsheetId p) (sheetName p) (rowIndex p) ?rh
            ''error'' (JStr '''') (repr_exc env err) = events st1 @ [ev]"
          "spreadsheet_id ev = spreadsheetId p" "sheet_name ev = sheetName p"
          "row_index ev = rowIndex p" "r_hash ev = ?rh" "action ev = ''error''"
        by blast
      with False seen assms t Inl ev1 show ?thesis
        by (auto simp: ingest_rows_def Let_def same_row_def)
    next
      case (Inr r)
      with ingest_try_effect [OF t] obtain ev where
          "events st1 = events st @ [ev]"
          "spreadsheet_id ev = spreadsheetId p" "sheet_name ev = sheetName p"
          "row_index ev = rowIndex p" "r_hash ev = ?rh"
          "action ev \<in> {''skipped'', ''updated'', ''created''}"
        by auto
      with False seen assms t Inr show ?thesis
        by (auto simp: ingest_rows_def Let_def same_row_def)
    qed
  qed
qed







lemma example_contact:
  "map_row_to_contact [''Email''] [Some ''a@b.com''] None = [(''email'', ''a@b.com'')]"
  by code_simp

lemma example_email: "lower (strip ''a@b.com'') = ''a@b.com''"
  by code_simp


lemma example_blank_company:
  "map_row_to_contact [''Email'', ''Company''] [Some '' A@B.com '', Some ''''] None
     = [(''email'', ''a@b.com'')]"
  by code_simp

lemma example_upsert:
  "upsert_contact_to_hubspot (example_env create_script) [(''email'', ''a@b.com'')] empty_state
   = (Inr (Created (JStr ''101'')),
      \<lparr>events = [],
       trace = [Sent \<lparr>req_method = ''POST'',
                      req_url = HUBSPOT_API_BASE @ ''/crm/v3/objects/contacts/search'',
                      req_headers = [(''Authorization'', ''Bearer pat-example''),
                                     (''Content-Type'', ''application/json'')],
                      req_json = search_payload ''a@b.com''\<rparr>,
                Sent \<lparr>req_method = ''POST'',
                      req_url = HUBSPOT_API_BASE @ ''/crm/v3/objects/contacts'',
                      req_headers = [(''Authorization'', ''Bearer pat-example''),
                                     (''Content-Type'', ''application/json'')],
                      req_json = JObj [(''properties'', JObj [(''email'', JStr ''a@b.com'')])]\<rparr>]\<rparr>)"
  by (simp add: upsert_contact_to_hubspot_def example_email hubspot_find_contact_by_email_def
      hubspot_create_contact_def hs_headers_def request_retry_def upt_rec send_request_def
      example_env_def scripted_net_def create_script_def empty_state_def first_result_id_def
      response_json_def props_payload_def Let_def)

lemma example_created_call:
  "map action (events (snd (ingest_rows (example_env create_script) example_payload
      (Some ''change-me'') empty_state))) = [''created'']"
  by (simp add: ingest_rows_def ingest_try_def example_payload_def
      already_processed_def example_contact example_upsert [unfolded empty_state_def]
      log_event_def Let_def empty_state_def)
    (simp add: example_env_def)

section \<open>Facts about the watcher\<close>

lemma stable_loop_keeps:
  "stable_loop env checks interval n last_size stable_n st = (x, st') \<Longrightarrow>
     last_event st' = last_event st \<and> printed st' = printed st"
proof (induction env checks interval n last_size stable_n st rule: stable_loop.induct)
  case (1 env checks interval last_size stable_n st)
  then show ?case by simp
next
  case (2 env checks interval n last_size stable_n st)
  then show ?case
    by (auto simp: tick_def wsleep_def split: sum.splits if_splits)
qed

lemma copy_loop_keeps:
  "copy_loop env n st = (x, st') \<Longrightarrow>
     last_event st' = last_event st \<and> printed st' = printed st"
proof (induction env n st rule: copy_loop.induct)
  case (1 env st)
  then show ?case by simp
next
  case (2 env n st)
  then show ?case
    by (auto simp: tick_def wsleep_def split: if_splits)
qed

lemma copy_to_temp_keeps:
  assumes "copy_to_temp env st = (x, st')"
  shows "last_event st' = last_event st \<and> printed st' = printed st"
proof -
  obtain y st1 where w: "wait_until_stable env st = (y, st1)"
    by (cases "wait_until_stable env st") auto
  then have k1: "last_event st1 = last_event st \<and> printed st1 = printed st"
    unfolding wait_until_stable_def by (rule stable_loop_keeps)
  obtain ok st2 where c: "copy_loop env READ_RETRIES st1 = (ok, st2)"
    by (cases "copy_loop env READ_RETRIES st1") auto
  from copy_loop_keeps [OF c] have k2: "last_event st2 = last_event st1 \<and> printed st2 = printed st1" .
  from assms w c have "st' = st1 \<or> st' = st2"
    by (auto simp: copy_to_temp_def split: sum.splits bool.splits if_splits)
  with k1 k2 show ?thesis by auto
qed

lemma read_body_keeps:
  "read_body env st = (x, st') \<Longrightarrow>
     last_event st' = last_event st \<and> prefix (printed st) (printed st')"
  by (auto simp: read_body_def Let_def tick_def emit_def split: sum.splits if_splits)

lemma read_table_any_keeps:
  assumes "read_table_any env st = (x, st')"
  shows "last_event st' = last_event st \<and> prefix (printed st) (printed st')"
proof -
  obtain y st1 where c: "copy_to_temp env st = (y, st1)"
    by (cases "copy_to_temp env st") auto
  note k1 = copy_to_temp_keeps [OF c]
  obtain z st2 where b: "read_body env st1 = (z, st2)"
    by (cases "read_body env st1") auto
  note k2 = read_body_keeps [OF b]
  from assms c b have "st' = st1 \<or> st' = unlink_temp env st2"
    by (auto simp: read_table_any_def split: sum.splits bool.splits if_splits)
  with k1 k2 show ?thesis
    by (auto simp: unlink_temp_def tick_def)
qed

lemma send_first_row_keeps:
  "last_event (send_first_row env df st) = last_event st
   \<and> prefix (printed st) (printed (send_first_row env df st))"
  by (auto simp: send_first_row_def Let_def tick_def emit_def
      split: list.splits sum.splits option.splits)

lemma handle_change_dropped:
  "now - last_event st < DEBOUNCE_SECS \<Longrightarrow> handle_change env now st = (Inr (), st)"
  by (simp add: handle_change_def)

lemma handle_change_accepted:
  assumes "\<not> now - last_event st < DEBOUNCE_SECS"
  shows "last_event (snd (handle_change env now st)) = now
       \<and> (\<exists>more. printed (snd (handle_change env now st)) = printed st @ ChangeDetected # more)"
proof -
  let ?st1 = "emit ChangeDetected (st\<lparr>last_event := now\<rparr>)"
  obtain x st2 where r: "read_table_any env ?st1 = (x, st2)"
    by (cases "read_table_any env ?st1") auto
  from read_table_any_keeps [OF r]
  have k: "last_event st2 = now" "prefix (printed st @ [ChangeDetected]) (printed st2)"
    by (simp_all add: emit_def)
  from assms r have "snd (handle_change env now st) = st2
      \<or> snd (handle_change env now st) = emit CouldNotRead st2
      \<or> (\<exists>df. snd (handle_change env now st) = send_first_row env df st2)"
    by (auto simp: handle_change_def Let_def split: sum.splits option.splits)
  moreover have "last_event (emit CouldNotRead st2) = now"
      "prefix (printed st @ [ChangeDetected]) (printed (emit CouldNotRead st2))"
    using k by (auto simp: emit_def prefix_def)
  moreover have "last_event (send_first_row env df st2) = now"
      "prefix (printed st @ [ChangeDetected]) (printed (send_first_row env df st2))" for df
    using k send_first_row_keeps [of env df st2] by (auto elim: prefix_order.trans)
  ultimately have "last_event (snd (handle_change env now st)) = now
      \<and> prefix (printed st @ [ChangeDetected]) (printed (snd (handle_change env now st)))"
    using k by auto
  then show ?thesis
    by (auto simp: prefix_def)
qed

lemma accepts_iff:
  "accepts env ev now st \<longleftrightarrow> for_target env ev \<and> DEBOUNCE_SECS \<le> now - last_event st"
proof (cases "for_target env ev \<and> \<not> now - last_event st < DEBOUNCE_SECS")
  case True
  with handle_change_accepted [of now st env] show ?thesis
    by (auto simp: accepts_def dispatch_def)
next
  case False
  then show ?thesis
    by (auto simp: accepts_def dispatch_def handle_change_dropped)
qed

lemma dispatch_not_accepted:
  "\<not> accepts env ev now st \<Longrightarrow> dispatch env ev now st = (Inr (), st)"
  by (auto simp: accepts_iff dispatch_def handle_change_dropped)

lemma dispatch_accepted:
  "accepts env ev now st \<Longrightarrow> last_event (snd (dispatch env ev now st)) = now"
  using handle_change_accepted [of now st env]
  by (auto simp: accepts_iff dispatch_def)

lemma accepted_times_apart:
  "sorted_wrt (\<lambda>a b. DEBOUNCE_SECS \<le> b - a) (accepted_times env evs st)
   \<and> (\<forall>t \<in> set (accepted_times env evs st). DEBOUNCE_SECS \<le> t - last_event st)"
proof (induction evs arbitrary: st)
  case Nil
  then show ?case by simp
next
  case (Cons c evs)
  obtain ev now where c: "c = (ev, now)" by (cases c)
  obtain x st' where d: "dispatch env ev now st = (x, st')"
    by (cases "dispatch env ev now st") auto
  have D: "0 \<le> DEBOUNCE_SECS" by (simp add: DEBOUNCE_SECS_def)
  show ?case
  proof (cases "accepts env ev now st")
    case False
    from dispatch_not_accepted [OF False] d have "x = Inr ()" "st' = st" by simp_all
    with False c d Cons.IH [of st] show ?thesis by simp
  next
    case True
    then have now: "DEBOUNCE_SECS \<le> now - last_event st"
      by (simp add: accepts_iff)
    from dispatch_accepted [OF True] d have le: "last_event st' = now" by simp
    show ?thesis
    proof (cases x)
      case (Inl e)
      with True c d now show ?thesis by simp
    next
      case (Inr u)
      from Cons.IH [of st'] le
      have ih: "sorted_wrt (\<lambda>a b. DEBOUNCE_SECS \<le> b - a) (accepted_times env evs st')"
        "\<forall>t \<in> set (accepted_times env evs st'). DEBOUNCE_SECS \<le> t - now"
        by simp_all
      from ih(2) now D have "\<forall>t \<in> set (accepted_times env evs st'). DEBOUNCE_SECS \<le> t - last_event st"
        by force
      with True c d Inr now ih show ?thesis by simp
    qed
  qed
qed

lemma missing_file_never_stable:
  "fst (stable_loop missing_file checks interval n last_size stable_n st) = Inr False"
  by (induction n arbitrary: st) (simp_all add: missing_file_def broken_xlsx_def)

lemma missing_file_handled:
  "fst (handle_change missing_file now st) = Inr ()"
proof -
  let ?s = "emit ChangeDetected (st\<lparr>last_event := now\<rparr>)"
  obtain y s1 where w: "stable_loop missing_file 3 0.3 READ_RETRIES (- 1) 0 ?s = (y, s1)"
    by (cases "stable_loop missing_file 3 0.3 READ_RETRIES (- 1) 0 ?s") auto
  with missing_file_never_stable [of 3 "0.3" READ_RETRIES "- 1" 0 ?s] have "y = Inr False"
    by simp
  with w have "read_table_any missing_file ?s = (Inr None, s1)"
    by (simp add: read_table_any_def copy_to_temp_def wait_until_stable_def)
  then show ?thesis
    by (simp add: handle_change_def Let_def)
qed

lemma times_example:
  "accepted_times missing_file
     [(modified ''sample_contacts.csv'', 10), (modified ''sample_contacts.csv'', 10.5),
      (modified ''notes.txt'', 10.8), (modified ''sample_contacts.csv'', 11),
      (modified ''sample_contacts.csv'', 11.9)]
     (idle_at 0) = [10, 11]"
proof -
  let ?ev = "modified ''sample_contacts.csv''"
  have t: "for_target missing_file ?ev" "\<not> for_target missing_file (modified ''notes.txt'')"
    by (simp_all add: for_target_def modified_def missing_file_def broken_xlsx_def)
  have step: "accepted_times missing_file ((ev, now) # rest) st =
      (if for_target missing_file ev \<and> DEBOUNCE_SECS \<le> now - last_event st
       then now # accepted_times missing_file rest (snd (dispatch missing_file ev now st))
       else accepted_times missing_file rest st)" for ev now rest st
  proof (cases "accepts missing_file ev now st")
    case True
    then have "for_target missing_file ev" by (simp add: accepts_iff)
    then have "fst (dispatch missing_file ev now st) = Inr ()"
      by (simp add: dispatch_def missing_file_handled)
    with True show ?thesis
      by (cases "dispatch missing_file ev now st") (auto simp: accepts_iff)
  next
    case False
    with dispatch_not_accepted [OF False] show ?thesis
      by (auto simp: accepts_iff)
  qed
  have le: "last_event (snd (dispatch missing_file ev now st)) = now"
    if "for_target missing_file ev" "DEBOUNCE_SECS \<le> now - last_event st" for ev now st
    using that dispatch_accepted [of missing_file ev now st] by (simp add: accepts_iff)
  have l0: "last_event (idle_at 0) = 0" by (simp add: idle_at_def)
  show ?thesis
    by (simp add: step t le l0 DEBOUNCE_SECS_def del: accepted_times.simps(2))
qed

lemma broken_xlsx_read:
  "read_table_any broken_xlsx (idle_at 0)
     = (Inl (PyError ''BadZipFile''),
        \<lparr>last_event = 0, ticks = 7, temp_exists = False, printed = [],
         slept = [0.3, 0.3, 0.3], posted = []\<rparr>)"
  by (simp add: read_table_any_def copy_to_temp_def wait_until_stable_def READ_RETRIES_def
      eval_nat_numeral broken_xlsx_def idle_at_def tick_def wsleep_def read_body_def
      unlink_temp_def lower_def lower_char_def Let_def)

lemma read_table_any_copied:
  assumes "copy_to_temp env st = (Inr True, st1)"
  shows "read_table_any env st
           = (fst (read_body env st1), unlink_temp env (snd (read_body env st1)))"
  using assms by (cases "read_body env st1") (simp add: read_table_any_def)

lemma read_body_temp:
  "temp_exists (snd (read_body env st)) = temp_exists st"
  by (auto simp: read_body_def Let_def tick_def emit_def split: sum.splits)

lemma broken_xlsx_copy:
  "copy_to_temp broken_xlsx (idle_at 0)
     = (Inr True, \<lparr>last_event = 0, ticks = 5, temp_exists = True, printed = [],
                   slept = [0.3, 0.3, 0.3], posted = []\<rparr>)"
  by (simp add: copy_to_temp_def wait_until_stable_def READ_RETRIES_def
      eval_nat_numeral broken_xlsx_def idle_at_def tick_def wsleep_def)

lemma broken_xlsx_change:
  "handle_change broken_xlsx 5 (idle_at 0)
     = (Inl (PyError ''BadZipFile''),
        \<lparr>last_event = 5, ticks = 7, temp_exists = False, printed = [ChangeDetected],
         slept = [0.3, 0.3, 0.3], posted = []\<rparr>)"
  by (simp add: handle_change_def DEBOUNCE_SECS_def emit_def
      read_table_any_def copy_to_temp_def wait_until_stable_def READ_RETRIES_def
      eval_nat_numeral broken_xlsx_def idle_at_def tick_def wsleep_def read_body_def
      unlink_temp_def lower_def lower_char_def Let_def)

lemma broken_csv_change:
  "handle_change broken_csv 5 (idle_at 0)
     = (Inl (PyError ''EmptyDataError''),
        \<lparr>last_event = 5, ticks = 8, temp_exists = False, printed = [ChangeDetected],
         slept = [0.3, 0.3, 0.3], posted = []\<rparr>)"
  by (simp add: handle_change_def DEBOUNCE_SECS_def emit_def
      read_table_any_def copy_to_temp_def wait_until_stable_def READ_RETRIES_def
      eval_nat_numeral broken_csv_def broken_xlsx_def idle_at_def tick_def wsleep_def read_body_def
      unlink_temp_def lower_def lower_char_def Let_def)

lemma broken_csv_run:
  "accepted_times broken_csv
     [(modified ''sample_contacts.csv'', 5), (modified ''sample_contacts.csv'', 10)] (idle_at 0)
   = [5]"
proof -
  let ?ev = "modified ''sample_contacts.csv''"
  have t: "for_target broken_csv ?ev"
    by (simp add: for_target_def modified_def broken_csv_def broken_xlsx_def)
  then have d: "dispatch broken_csv ?ev 5 (idle_at 0) = handle_change broken_csv 5 (idle_at 0)"
    by (simp add: dispatch_def)
  have a: "accepts broken_csv ?ev 5 (idle_at 0)"
    using t by (simp add: accepts_iff idle_at_def DEBOUNCE_SECS_def)
  show ?thesis
    using a by (simp add: d broken_csv_change)
qed

section \<open>Claims about the fingerprint\<close>

text \<open>
  C2, as amended. The fingerprint is a function of the headers and the values: equal
  sequences in equal order give the same digest. It is the SHA-256 digest of the text
  \<open>"|".join(headers)\<close> followed by \<open>"|".join(str(v) for v in values)\<close>, and it depends on
  the row through that text only: two rows with the same joined text have the same digest.
  Where the values stay as they are and the two lists of headers have the same length, differ,
  and hold no \<open>|\<close>, the bytes that are hashed differ; likewise for two lists of values under
  the same headers. That the digests then differ is left to SHA-256.
\<close>

theorem row_hash_of_joined_text:
  "row_hash headers vs
     = sha256_hexdigest (encode_utf8 (join ''|'' headers @ join ''|'' (map py_str vs)))
   \<and> (join ''|'' headers @ join ''|'' (map py_str vs)
        = join ''|'' headers' @ join ''|'' (map py_str vs') \<longrightarrow>
      row_hash headers vs = row_hash headers' vs')
   \<and> (length headers = length headers' \<and> headers \<noteq> headers'
        \<and> (\<forall>h \<in> set headers \<union> set headers'. CHR ''|'' \<notin> set h) \<longrightarrow>
      row_hash_bytes headers vs \<noteq> row_hash_bytes headers' vs)
   \<and> (length vs = length vs' \<and> map py_str vs \<noteq> map py_str vs'
        \<and> (\<forall>v \<in> set (map py_str vs) \<union> set (map py_str vs'). CHR ''|'' \<notin> set v) \<longrightarrow>
      row_hash_bytes headers vs \<noteq> row_hash_bytes headers vs')"
proof (intro conjI impI)
  show eq: "\<And>hs ws. row_hash hs ws
     = sha256_hexdigest (encode_utf8 (join ''|'' hs @ join ''|'' (map py_str ws)))"
    by (simp add: row_hash_def row_hash_bytes_def encode_utf8_append)
  show "row_hash headers vs = row_hash headers' vs'"
    if "join ''|'' headers @ join ''|'' (map py_str vs)
        = join ''|'' headers' @ join ''|'' (map py_str vs')"
    using that by (simp add: eq)
  show "row_hash_bytes headers vs \<noteq> row_hash_bytes headers' vs"
    if h: "length headers = length headers' \<and> headers \<noteq> headers'
        \<and> (\<forall>h \<in> set headers \<union> set headers'. CHR ''|'' \<notin> set h)"
  proof
    assume "row_hash_bytes headers vs = row_hash_bytes headers' vs"
    then have "encode_utf8 (join ''|'' headers) = encode_utf8 (join ''|'' headers')"
      by (simp add: row_hash_bytes_def)
    then have "join ''|'' headers = join ''|'' headers'"
      by (rule encode_utf8_inj)
    with h have "headers = headers'"
      by (intro join_inj) auto
    with h show False by simp
  qed
  show "row_hash_bytes headers vs \<noteq> row_hash_bytes headers vs'"
    if v: "length vs = length vs' \<and> map py_str vs \<noteq> map py_str vs'
        \<and> (\<forall>v \<in> set (map py_str vs) \<union> set (map py_str vs'). CHR ''|'' \<notin> set v)"
  proof
    assume "row_hash_bytes headers vs = row_hash_bytes headers vs'"
    then have "encode_utf8 (join ''|'' (map py_str vs)) = encode_utf8 (join ''|'' (map py_str vs'))"
      by (simp add: row_hash_bytes_def)
    then have "join ''|'' (map py_str vs) = join ''|'' (map py_str vs')"
      by (rule encode_utf8_inj)
    with v have "map py_str vs = map py_str vs'"
      by (intro join_inj) auto
    with v show False by simp
  qed
qed

theorem row_hash_of_joined_text_witness:
  "length [''Email'', ''Name''] = length [''Name'', ''Email'']
   \<and> [''Email'', ''Name''] \<noteq> [''Name'', ''Email'']
   \<and> row_hash_bytes [''Email'', ''Name''] [Some ''a@b.com'', None]
       \<noteq> row_hash_bytes [''Name'', ''Email''] [Some ''a@b.com'', None]
   \<and> join ''|'' [''a|a'', ''a''] @ join ''|'' (map py_str []) = ''a|a|a''
   \<and> join ''|'' [''a'', ''a|a''] @ join ''|'' (map py_str []) = ''a|a|a''
   \<and> row_hash [''a|a'', ''a''] [] = row_hash [''a'', ''a|a''] []"
proof -
  note t = row_hash_of_joined_text [of "[''Email'', ''Name'']" "[Some ''a@b.com'', None]"
      "[''Name'', ''Email'']" "[Some ''a@b.com'', None]"]
  note u = row_hash_of_joined_text [of "[''a|a'', ''a'']" "[]" "[''a'', ''a|a'']" "[]"]
  have h: "length [''Email'', ''Name''] = length [''Name'', ''Email'']
      \<and> [''Email'', ''Name''] \<noteq> [''Name'', ''Email'']
      \<and> (\<forall>h \<in> set [''Email'', ''Name''] \<union> set [''Name'', ''Email'']. CHR ''|'' \<notin> set h)"
    by simp
  from t h have 1: "row_hash_bytes [''Email'', ''Name''] [Some ''a@b.com'', None]
       \<noteq> row_hash_bytes [''Name'', ''Email''] [Some ''a@b.com'', None]"
    by blast
  have j: "join ''|'' [''a|a'', ''a''] @ join ''|'' (map py_str [])
      = join ''|'' [''a'', ''a|a''] @ join ''|'' (map py_str [])"
    by simp
  from u j have 2: "row_hash [''a|a'', ''a''] [] = row_hash [''a'', ''a|a''] []"
    by blast
  from 1 2 show ?thesis by simp
qed

text \<open>
  C2 as stated fails: changing the order of the headers \<open>["a|a", "a"]\<close> into
  \<open>["a", "a|a"]\<close> leaves the digest as it was, since both join to \<open>a|a|a\<close>; and so does
  changing a missing value into the text \<open>None\<close>, since \<open>str(None)\<close> is \<open>"None"\<close>.
\<close>

theorem row_hash_counterexample:
  "[''a|a'', ''a''] \<noteq> [''a'', ''a|a'']
   \<and> row_hash [''a|a'', ''a''] [] = row_hash [''a'', ''a|a''] []
   \<and> [None] \<noteq> [Some ''None'']
   \<and> row_hash [''h''] [None] = row_hash [''h''] [Some ''None'']"
  by (simp add: row_hash_def row_hash_bytes_def)

section \<open>Claims about the row mapper\<close>

text \<open>
  C4, as amended. When a mapping that is not empty is supplied, the alias table gives
  nothing: every field of the result is a field the mapping names, the header named for
  it is a header of the row (compared after normalisation), and the field's text is the
  cell at the first position of that header (the email stripped and lowered). For headers
  \<open>["Email", "First Name"]\<close>, values \<open>["a@b.com", "Ann"]\<close> and the mapping
  \<open>{"lastname": "First Name"}\<close> the result is \<open>{lastname: "Ann"}\<close>: neither \<open>email\<close> nor
  \<open>firstname\<close>.
\<close>

theorem explicit_mapping_only:
  "(m \<noteq> [] \<longrightarrow>
      (\<forall>k v. (k, v) \<in> set (map_row_to_contact headers vs (Some m)) \<longrightarrow>
         (\<exists>h. (k, h) \<in> set m \<and> norm_key h \<in> set (map norm_key headers)
              \<and> index_of (map norm_key headers) (norm_key h) < length vs
              \<and> v = (let x = cell_text (vs ! index_of (map norm_key headers) (norm_key h))
                     in if k = ''email'' then lower (strip x) else x))))
   \<and> map_row_to_contact [''Email'', ''First Name''] [Some ''a@b.com'', Some ''Ann'']
         (Some [(''lastname'', ''First Name'')]) = [(''lastname'', ''Ann'')]"
proof (intro conjI impI allI)
  fix k v
  assume m: "m \<noteq> []" and kv: "(k, v) \<in> set (map_row_to_contact headers vs (Some m))"
  let ?lm = "map (\<lambda>(k, v). (k, norm_key v)) (filter (\<lambda>(k, v). k \<in> fst ` set empty_contact) m)"
  let ?hn = "map norm_key headers"
  let ?raw = "apply_mapping ?lm ?hn (map cell_text vs) empty_contact"
  have raw: "distinct (map fst ?raw)" "''email'' \<in> fst ` set ?raw"
    using explicit_raw by blast+
  from kv m have "(k, v) \<in> set (finish_contact ?raw)"
    by (simp add: map_row_to_contact_explicit)
  with finish_contact_set [OF raw, of k v]
  obtain x where v: "v \<noteq> ''''" and x: "map_of ?raw k = Some x"
      and vx: "v = (if k = ''email'' then lower (strip x) else x)"
    by auto
  from v vx have "x \<noteq> ''''"
    by (auto simp: strip_Nil lower_def split: if_splits)
  with x apply_mapping_map_of [OF x] empty_contact_values
  obtain w where w: "(k, w) \<in> set ?lm" "w \<in> set ?hn" "index_of ?hn w < length (map cell_text vs)"
      "x = map cell_text vs ! index_of ?hn w"
    by blast
  from w(1) obtain h where h: "(k, h) \<in> set m" "w = norm_key h"
    by auto
  show "\<exists>h. (k, h) \<in> set m \<and> norm_key h \<in> set (map norm_key headers)
              \<and> index_of (map norm_key headers) (norm_key h) < length vs
              \<and> v = (let x = cell_text (vs ! index_of (map norm_key headers) (norm_key h))
                     in if k = ''email'' then lower (strip x) else x)"
    using h w vx by (intro exI [of _ h]) (simp add: Let_def)
next
  show "map_row_to_contact [''Email'', ''First Name''] [Some ''a@b.com'', Some ''Ann'']
         (Some [(''lastname'', ''First Name'')]) = [(''lastname'', ''Ann'')]"
    by code_simp
qed

theorem explicit_mapping_only_witness:
  "[(''lastname'', ''First Name'')] \<noteq> []
   \<and> (''lastname'', ''Ann'') \<in> set (map_row_to_contact [''Email'', ''First Name'']
          [Some ''a@b.com'', Some ''Ann''] (Some [(''lastname'', ''First Name'')]))
   \<and> (\<exists>h. (''lastname'', h) \<in> set [(''lastname'', ''First Name'')]
          \<and> norm_key h \<in> set (map norm_key [''Email'', ''First Name'']))"
proof -
  let ?m = "[(''lastname'', ''First Name'')]"
  let ?hs = "[''Email'', ''First Name'']"
  let ?vs = "[Some ''a@b.com'', Some ''Ann'']"
  note t = explicit_mapping_only [of ?m ?hs ?vs]
  from t have eq: "map_row_to_contact ?hs ?vs (Some ?m) = [(''lastname'', ''Ann'')]"
    by (rule conjunct2)
  then have mem: "(''lastname'', ''Ann'') \<in> set (map_row_to_contact ?hs ?vs (Some ?m))"
    by simp
  have ne: "?m \<noteq> []" by simp
  from t ne mem have "\<exists>h. (''lastname'', h) \<in> set ?m \<and> norm_key h \<in> set (map norm_key ?hs)"
    by blast
  with ne mem show ?thesis by blast
qed

text \<open>
  C4 as stated fails for a mapping that is supplied and empty: \<open>if mapping:\<close> is false for
  \<open>{}\<close>, and the aliases fill in \<open>email\<close> and \<open>firstname\<close>.
\<close>

theorem explicit_mapping_counterexample:
  "map_row_to_contact [''Email'', ''First Name''] [Some ''a@b.com'', Some ''Ann''] (Some [])
    = [(''email'', ''a@b.com''), (''firstname'', ''Ann'')]"
  by code_simp


text \<open>
  C10. The empty dictionary as mapping gives what no mapping gives, for every row: both
  take the heuristic branch over \<open>HEADER_ALIASES\<close>.
\<close>

theorem empty_mapping_is_no_mapping:
  "map_row_to_contact headers vs (Some []) = map_row_to_contact headers vs None
   \<and> map_row_to_contact headers vs None =
       finish_contact
         (apply_aliases HEADER_ALIASES (map norm_key headers) (map cell_text vs) empty_contact)"
  by (simp add: map_row_to_contact_def)

theorem empty_mapping_is_no_mapping_witness:
  "map_row_to_contact [''Email''] [Some ''A@b.com''] (Some []) = [(''email'', ''a@b.com'')]
   \<and> map_row_to_contact [''Email''] [Some ''A@b.com''] None = [(''email'', ''a@b.com'')]"
proof -
  have "map_row_to_contact [''Email''] [Some ''A@b.com''] None = [(''email'', ''a@b.com'')]"
    by code_simp
  then show ?thesis
    using empty_mapping_is_no_mapping [of "[''Email'']" "[Some ''A@b.com'']"] by simp
qed

text \<open>
  C5. With no mapping, a field of the alias table takes the cell under the first header,
  in the order given, whose normalised form is the normalised form of one of the field's
  aliases; the email is stripped and lowered, and a field whose text is empty (also when
  the row has no cell at that position, or no header matches) is absent. No other key
  appears. For headers \<open>["Mobile Phone", "E-Mail"]\<close> and values \<open>["555-1234", "X@Y.com "]\<close>
  the result is exactly \<open>{email: "x@y.com", phone: "555-1234"}\<close>.
\<close>

theorem heuristic_first_match:
  "((p, as) \<in> set HEADER_ALIASES \<and> i < length headers
      \<and> norm_key (headers ! i) \<in> norm_key ` set as
      \<and> (\<forall>j < i. norm_key (headers ! j) \<notin> norm_key ` set as) \<longrightarrow>
        map_of (map_row_to_contact headers vs None) p =
          (let x = (if i < length vs then cell_text (vs ! i) else '''');
               y = (if p = ''email'' then lower (strip x) else x)
           in if y = '''' then None else Some y))
   \<and> ((p, as) \<in> set HEADER_ALIASES
        \<and> (\<forall>h \<in> set headers. norm_key h \<notin> norm_key ` set as) \<longrightarrow>
        map_of (map_row_to_contact headers vs None) p = None)
   \<and> (k \<notin> fst ` set HEADER_ALIASES \<longrightarrow> map_of (map_row_to_contact headers vs None) k = None)
   \<and> map_row_to_contact [''Mobile Phone'', ''E-Mail''] [Some ''555-1234'', Some ''X@Y.com ''] None
        = [(''email'', ''x@y.com''), (''phone'', ''555-1234'')]"
proof -
  let ?hn = "map norm_key headers"
  let ?vals = "map cell_text vs"
  let ?raw = "apply_aliases HEADER_ALIASES ?hn ?vals empty_contact"
  have raw: "distinct (map fst ?raw)" "''email'' \<in> fst ` set ?raw"
    using heuristic_raw by blast+
  note fin = finish_contact_map_of [OF raw] map_row_to_contact_heuristic
  have hit: "map_of (map_row_to_contact headers vs None) p =
          (let x = (if i < length vs then cell_text (vs ! i) else '''');
               y = (if p = ''email'' then lower (strip x) else x)
           in if y = '''' then None else Some y)"
    if mem: "(p, as) \<in> set HEADER_ALIASES" and i: "i < length headers"
      and m: "norm_key (headers ! i) \<in> norm_key ` set as"
      and first: "\<forall>j < i. norm_key (headers ! j) \<notin> norm_key ` set as"
  proof -
    from i m first have "scan_headers p as (enumerate 0 ?hn) ?vals empty_contact =
        (if 0 + i < length ?vals then AList.update p (?vals ! (0 + i)) empty_contact
         else empty_contact)"
      by (intro scan_headers_hit) simp_all
    moreover from mem have "p \<in> fst ` set empty_contact"
      using header_aliases_keys by (metis fst_conv image_eqI)
    ultimately have "map_of ?raw p =
        Some (if i < length vs then cell_text (vs ! i) else '''')"
      using heuristic_raw_at [OF mem] empty_contact_map_of
      by (simp add: update_conv')
    then show ?thesis
      by (simp add: fin Let_def)
  qed
  have miss: "map_of (map_row_to_contact headers vs None) p = None"
    if mem: "(p, as) \<in> set HEADER_ALIASES"
      and none: "\<forall>h \<in> set headers. norm_key h \<notin> norm_key ` set as"
  proof -
    from none have "scan_headers p as (enumerate 0 ?hn) ?vals empty_contact = empty_contact"
      by (intro scan_headers_miss) simp
    moreover from mem have "p \<in> fst ` set empty_contact"
      using header_aliases_keys by (metis fst_conv image_eqI)
    ultimately have "map_of ?raw p = Some ''''"
      using heuristic_raw_at [OF mem] empty_contact_map_of by simp
    then show ?thesis
      by (simp add: fin Let_def strip_Nil lower_def)
  qed
  have other: "map_of (map_row_to_contact headers vs None) k = None"
    if "k \<notin> fst ` set HEADER_ALIASES"
  proof -
    from that have "map_of ?raw k = map_of empty_contact k"
      by (rule apply_aliases_other)
    moreover from that have "map_of empty_contact k = None"
      using header_aliases_keys by (metis map_of_eq_None_iff)
    ultimately show ?thesis
      by (simp add: fin)
  qed
  have ex: "map_row_to_contact [''Mobile Phone'', ''E-Mail''] [Some ''555-1234'', Some ''X@Y.com ''] None
        = [(''email'', ''x@y.com''), (''phone'', ''555-1234'')]"
    by code_simp
  from hit miss other ex show ?thesis by blast
qed

theorem heuristic_first_match_witness:
  "(''email'', [''email'', ''e-mail'', ''mail'']) \<in> set HEADER_ALIASES
   \<and> (1::nat) < length [''Mobile Phone'', ''E-Mail'']
   \<and> norm_key ([''Mobile Phone'', ''E-Mail''] ! 1) \<in> norm_key ` set [''email'', ''e-mail'', ''mail'']
   \<and> norm_key ([''Mobile Phone'', ''E-Mail''] ! 0) \<notin> norm_key ` set [''email'', ''e-mail'', ''mail'']
   \<and> map_of (map_row_to_contact [''Mobile Phone'', ''E-Mail'']
                [Some ''555-1234'', Some ''X@Y.com ''] None) ''email'' = Some ''x@y.com''
   \<and> (''company'', [''company'', ''account'', ''organisation'', ''organization'']) \<in> set HEADER_ALIASES
   \<and> map_of (map_row_to_contact [''Mobile Phone'', ''E-Mail'']
                [Some ''555-1234'', Some ''X@Y.com ''] None) ''company'' = None
   \<and> ''fax'' \<notin> fst ` set HEADER_ALIASES
   \<and> map_of (map_row_to_contact [''Mobile Phone'', ''E-Mail'']
                [Some ''555-1234'', Some ''X@Y.com ''] None) ''fax'' = None"
proof -
  let ?hs = "[''Mobile Phone'', ''E-Mail'']"
  let ?vs = "[Some ''555-1234'', Some ''X@Y.com '']"
  let ?em = "[''email'', ''e-mail'', ''mail'']"
  let ?co = "[''company'', ''account'', ''organisation'', ''organization'']"
  have a1: "(''email'', ?em) \<in> set HEADER_ALIASES" by (simp add: HEADER_ALIASES_def)
  have a2: "(''company'', ?co) \<in> set HEADER_ALIASES" by (simp add: HEADER_ALIASES_def)
  have a3: "''fax'' \<notin> fst ` set HEADER_ALIASES" by (simp add: HEADER_ALIASES_def)
  have h1: "norm_key (?hs ! 1) \<in> norm_key ` set ?em" by code_simp
  have h0: "norm_key (?hs ! 0) \<notin> norm_key ` set ?em" by code_simp
  have first: "\<forall>j < (1::nat). norm_key (?hs ! j) \<notin> norm_key ` set ?em"
    using h0 by simp
  have lw: "lower (strip ''X@Y.com '') = ''x@y.com''" by code_simp
  have "norm_key ''Mobile Phone'' \<notin> norm_key ` set ?co"
    and "norm_key ''E-Mail'' \<notin> norm_key ` set ?co"
    by code_simp+
  then have none: "\<forall>h \<in> set ?hs. norm_key h \<notin> norm_key ` set ?co"
    by simp
  note t1 = heuristic_first_match [of "''email''" ?em 1 ?hs ?vs "''fax''"]
  note t2 = heuristic_first_match [of "''company''" ?co 0 ?hs ?vs "''fax''"]
  from t1 a1 h1 first have e: "map_of (map_row_to_contact ?hs ?vs None) ''email'' = Some ''x@y.com''"
    by (simp add: lw)
  from t2 a2 none have c: "map_of (map_row_to_contact ?hs ?vs None) ''company'' = None"
    by blast
  from t1 a3 have f: "map_of (map_row_to_contact ?hs ?vs None) ''fax'' = None"
    by blast
  from a1 a2 a3 h1 h0 e c f show ?thesis by simp
qed

section \<open>Claims about the retrying transport\<close>




section \<open>Claims about the ingestion endpoint\<close>



text \<open>
  C6. Whatever the headers, the values and the mapping, no field of the contact the mapper
  returns is the empty text, and its email, when it has one, is its own stripped and lowered
  form. The dictionary has each key once, so a field is either absent or present with a
  text. Every request an upsert of that contact sends is the search or carries exactly the
  contact as its property bag: no blank reaches create or update.
\<close>

theorem mapped_contact_clean:
  "(\<forall>k v. (k, v) \<in> set (map_row_to_contact headers vs mapping) \<longrightarrow>
       v \<noteq> '''' \<and> (k = ''email'' \<longrightarrow> lower (strip v) = v))
   \<and> (\<forall>e. map_of (map_row_to_contact headers vs mapping) ''email'' = Some e \<longrightarrow>
         e \<noteq> '''' \<and> lower (strip e) = e)
   \<and> distinct (map fst (map_row_to_contact headers vs mapping))
   \<and> (\<forall>q. Sent q \<in> set (trace (snd (upsert_contact_to_hubspot env
                 (map_row_to_contact headers vs mapping) st))) \<longrightarrow>
         Sent q \<in> set (trace st)
         \<or> (\<exists>e. req_json q = search_payload e)
         \<or> req_json q = props_payload (map_row_to_contact headers vs mapping))"
proof (intro conjI allI impI)
  fix k v
  assume kv: "(k, v) \<in> set (map_row_to_contact headers vs mapping)"
  from mapped_contact_fields(1) [OF kv] show "v \<noteq> ''''" .
  show "lower (strip v) = v" if "k = ''email''"
    using mapped_contact_fields(2) [OF kv that] .
next
  fix e
  assume "map_of (map_row_to_contact headers vs mapping) ''email'' = Some e"
  then have mem: "(''email'', e) \<in> set (map_row_to_contact headers vs mapping)"
    by (rule map_of_SomeD)
  from mapped_contact_fields [OF mem] show "e \<noteq> ''''" and "lower (strip e) = e"
    by simp_all
next
  show "distinct (map fst (map_row_to_contact headers vs mapping))"
    by (rule mapped_contact_distinct)
next
  fix q
  let ?c = "map_row_to_contact headers vs mapping"
  assume q: "Sent q \<in> set (trace (snd (upsert_contact_to_hubspot env ?c st)))"
  obtain x st' where u: "upsert_contact_to_hubspot env ?c st = (x, st')"
    by (cases "upsert_contact_to_hubspot env ?c st") auto
  from upsert_effect(2) [OF u, of q] q u
  show "Sent q \<in> set (trace st) \<or> (\<exists>e. req_json q = search_payload e)
         \<or> req_json q = props_payload ?c"
    by (auto simp: mapped_contact_props)
qed

theorem mapped_contact_clean_witness:
  "map_row_to_contact [''Email'', ''Company''] [Some '' A@B.com '', Some ''''] None
     = [(''email'', ''a@b.com'')]
   \<and> map_of (map_row_to_contact [''Email'', ''Company''] [Some '' A@B.com '', Some ''''] None)
        ''company'' = None
   \<and> ''a@b.com'' \<noteq> '''' \<and> lower (strip ''a@b.com'') = ''a@b.com''
   \<and> map req_json (map (\<lambda>x. case x of Sent q \<Rightarrow> q) (trace (snd (upsert_contact_to_hubspot
        (example_env create_script)
        (map_row_to_contact [''Email'', ''Company''] [Some '' A@B.com '', Some ''''] None)
        empty_state))))
       = [search_payload ''a@b.com'',
          JObj [(''properties'', JObj [(''email'', JStr ''a@b.com'')])]]"
proof -
  let ?c = "map_row_to_contact [''Email'', ''Company''] [Some '' A@B.com '', Some ''''] None"
  note t = mapped_contact_clean [of "[''Email'', ''Company'']" "[Some '' A@B.com '', Some '''']"
      None "example_env create_script" empty_state]
  have mem: "(''email'', ''a@b.com'') \<in> set ?c"
    by (simp add: example_blank_company)
  from t mem have "''a@b.com'' \<noteq> '''' \<and> lower (strip ''a@b.com'') = ''a@b.com''"
    by blast
  then show ?thesis
    by (simp add: example_blank_company example_upsert)
qed

text \<open>
  C9. A contact that came out of the mapper with an email is never answered by the
  \<open>skipped\<close> result of \<open>upsert_contact_to_hubspot\<close>; and every event a call of
  \<open>ingest_rows\<close> adds to the log has one of the actions \<open>duplicate\<close>, \<open>skipped\<close>,
  \<open>updated\<close>, \<open>created\<close>, \<open>error\<close>, never \<open>unknown\<close>.
\<close>

theorem upsert_never_skipped:
  "(\<forall>e. map_of (map_row_to_contact headers vs mapping) ''email'' = Some e \<longrightarrow>
       (\<forall>reason. fst (upsert_contact_to_hubspot env (map_row_to_contact headers vs mapping) st)
                    \<noteq> Inr (Skipped reason)))
   \<and> (\<exists>new. events (snd (ingest_rows env p x st)) = events st @ new
         \<and> (\<forall>ev \<in> set new. action ev \<in>
               {''duplicate'', ''skipped'', ''updated'', ''created'', ''error''}
               \<and> action ev \<noteq> ''unknown''))"
proof (intro conjI allI impI)
  fix e reason
  assume "map_of (map_row_to_contact headers vs mapping) ''email'' = Some e"
  then show "fst (upsert_contact_to_hubspot env (map_row_to_contact headers vs mapping) st)
                    \<noteq> Inr (Skipped reason)"
    by (rule mapped_upsert_not_skipped)
next
  show "\<exists>new. events (snd (ingest_rows env p x st)) = events st @ new
         \<and> (\<forall>ev \<in> set new. action ev \<in>
               {''duplicate'', ''skipped'', ''updated'', ''created'', ''error''}
               \<and> action ev \<noteq> ''unknown'')"
  proof (cases "x = Some (BRIDGE_SECRET env)")
    case False
    then show ?thesis
      by (intro exI [of _ "[]"]) (simp add: ingest_rows_unauthorised)
  next
    case True
    obtain res st' where r: "ingest_rows env p (Some (BRIDGE_SECRET env)) st = (res, st')"
      by (cases "ingest_rows env p (Some (BRIDGE_SECRET env)) st") auto
    from ingest_rows_effect(1) [OF r] obtain ev where
        "events st' = events st @ [ev]"
        "action ev \<in> {''duplicate'', ''skipped'', ''updated'', ''created'', ''error''}"
      by blast
    with True r show ?thesis
      by (intro exI [of _ "[ev]"]) auto
  qed
qed

theorem upsert_never_skipped_witness:
  "map_of (map_row_to_contact [''Email''] [Some ''a@b.com''] None) ''email'' = Some ''a@b.com''
   \<and> fst (upsert_contact_to_hubspot (example_env create_script)
            (map_row_to_contact [''Email''] [Some ''a@b.com''] None) empty_state)
       \<noteq> Inr (Skipped ''missing email'')
   \<and> fst (upsert_contact_to_hubspot (example_env create_script)
            (map_row_to_contact [''Email''] [Some ''a@b.com''] None) empty_state)
       = Inr (Created (JStr ''101''))
   \<and> map action (events (snd (ingest_rows (example_env create_script) example_payload
        (Some ''change-me'') empty_state))) = [''created'']"
proof -
  have e: "map_of (map_row_to_contact [''Email''] [Some ''a@b.com''] None) ''email''
      = Some ''a@b.com''"
    by (simp add: example_contact)
  note t = upsert_never_skipped [of "[''Email'']" "[Some ''a@b.com'']" None
      "example_env create_script" empty_state, THEN conjunct1]
  from t e have "fst (upsert_contact_to_hubspot (example_env create_script)
            (map_row_to_contact [''Email''] [Some ''a@b.com''] None) empty_state)
       \<noteq> Inr (Skipped ''missing email'')"
    by blast
  with e example_created_call show ?thesis
    by (simp add: example_contact example_upsert)
qed

section \<open>Claims about the watcher\<close>

text \<open>
  C8, as amended. An event for the watched file is accepted exactly when the time since
  the last accepted event (since 0 before the first) is at least the debounce duration;
  an event that is not accepted changes nothing, and an accepted one becomes the last
  accepted event. So in every run of events the accepted ones are at least one debounce
  duration apart, each from every earlier one.
\<close>

theorem debounce_gate:
  "(for_target env ev \<longrightarrow> (accepts env ev now st \<longleftrightarrow> DEBOUNCE_SECS \<le> now - last_event st))
   \<and> (\<not> accepts env ev now st \<longrightarrow> dispatch env ev now st = (Inr (), st))
   \<and> (accepts env ev now st \<longrightarrow> last_event (snd (dispatch env ev now st)) = now)
   \<and> sorted_wrt (\<lambda>a b. DEBOUNCE_SECS \<le> b - a) (accepted_times env evs st)
   \<and> (\<forall>t \<in> set (accepted_times env evs st). DEBOUNCE_SECS \<le> t - last_event st)"
  using accepted_times_apart [of env evs st] dispatch_not_accepted [of env ev now st]
    dispatch_accepted [of env ev now st]
  by (auto simp: accepts_iff)

theorem debounce_gate_witness:
  "for_target missing_file (modified ''sample_contacts.csv'')
   \<and> accepts missing_file (modified ''sample_contacts.csv'') 11 (idle_at 10)
   \<and> last_event (snd (dispatch missing_file (modified ''sample_contacts.csv'') 11 (idle_at 10)))
       = 11
   \<and> \<not> accepts missing_file (modified ''sample_contacts.csv'') 10.5 (idle_at 10)
   \<and> dispatch missing_file (modified ''sample_contacts.csv'') 10.5 (idle_at 10)
       = (Inr (), idle_at 10)
   \<and> accepted_times missing_file
       [(modified ''sample_contacts.csv'', 10), (modified ''sample_contacts.csv'', 10.5),
        (modified ''notes.txt'', 10.8), (modified ''sample_contacts.csv'', 11),
        (modified ''sample_contacts.csv'', 11.9)]
       (idle_at 0) = [10, 11]
   \<and> sorted_wrt (\<lambda>a b. DEBOUNCE_SECS \<le> b - a) [10, 11]"
proof -
  let ?ev = "modified ''sample_contacts.csv''"
  let ?evs = "[(?ev, 10), (?ev, 10.5), (modified ''notes.txt'', 10.8), (?ev, 11), (?ev, 11.9)]"
  have t: "for_target missing_file ?ev"
    by (simp add: for_target_def modified_def missing_file_def broken_xlsx_def)
  have e1: "DEBOUNCE_SECS \<le> 11 - last_event (idle_at 10)"
    by (simp add: idle_at_def DEBOUNCE_SECS_def)
  have e2: "\<not> DEBOUNCE_SECS \<le> 10.5 - last_event (idle_at 10)"
    by (simp add: idle_at_def DEBOUNCE_SECS_def)
  note g1 = debounce_gate [of missing_file ?ev 11 "idle_at 10" ?evs]
  note g2 = debounce_gate [of missing_file ?ev "10.5" "idle_at 10" ?evs]
  note g3 = debounce_gate [of missing_file ?ev 11 "idle_at 0" ?evs]
  from g1 t e1 have a1: "accepts missing_file ?ev 11 (idle_at 10)" by blast
  with g1 have a2: "last_event (snd (dispatch missing_file ?ev 11 (idle_at 10))) = 11" by blast
  from g2 t e2 have b1: "\<not> accepts missing_file ?ev 10.5 (idle_at 10)" by blast
  with g2 have b2: "dispatch missing_file ?ev 10.5 (idle_at 10) = (Inr (), idle_at 10)" by blast
  from g3 have "sorted_wrt (\<lambda>a b. DEBOUNCE_SECS \<le> b - a) (accepted_times missing_file ?evs (idle_at 0))"
    by blast
  then have c: "sorted_wrt (\<lambda>a b. DEBOUNCE_SECS \<le> b - a) [10, 11]"
    unfolding times_example .
  from t a1 a2 b1 b2 c times_example show ?thesis by blast
qed

text \<open>
  C8 as stated asks for a time that strictly exceeds the debounce duration. The test is
  \<open>now - _last_event < DEBOUNCE_SECS\<close>: an event exactly one second after the last
  accepted one is accepted.
\<close>

theorem debounce_counterexample:
  "for_target broken_xlsx (modified ''data.xlsx'')
   \<and> (6 :: real) - last_event (idle_at 5) = DEBOUNCE_SECS
   \<and> \<not> (6 :: real) - last_event (idle_at 5) > DEBOUNCE_SECS
   \<and> accepts broken_xlsx (modified ''data.xlsx'') 6 (idle_at 5)"
  by (simp add: accepts_iff for_target_def modified_def broken_xlsx_def idle_at_def
      DEBOUNCE_SECS_def)

text \<open>
  C7 against the code. \<open>read_table_any\<close> reads under \<open>try\<close> with a \<open>finally\<close> and no
  \<open>except\<close>: when the copy was made and the decoder of the workbook raises, or both
  decoders of the CSV file raise, the reader raises the same exception to
  \<open>handle_change\<close>, which has no handler either and raises it to the observer. The
  temporary copy is deleted all the same when \<open>unlink\<close> succeeds. In the example a
  workbook that the decoder rejects makes the handler raise without the line
  \<open>Could not read file\<close>, and after a CSV file that both decoders reject the next change
  is not handled any more.
\<close>

theorem decoder_failure_raises:
  "(copy_to_temp env st = (Inr True, st1)
      \<and> (lower (watch_suffix env) = ''.xlsx'' \<or> lower (watch_suffix env) = ''.xls'')
      \<and> read_excel env (ticks st1) = Inl e \<longrightarrow>
        fst (read_table_any env st) = Inl e)
   \<and> (copy_to_temp env st = (Inr True, st1) \<and> lower (watch_suffix env) = ''.csv''
      \<and> read_csv_utf8 env (ticks st1) = Inl e0
      \<and> read_csv_python env (Suc (ticks st1)) = Inl e \<longrightarrow>
        fst (read_table_any env st) = Inl e)
   \<and> (\<not> now - last_event st < DEBOUNCE_SECS
      \<and> fst (read_table_any env (emit ChangeDetected (st\<lparr>last_event := now\<rparr>))) = Inl e \<longrightarrow>
        fst (handle_change env now st) = Inl e)
   \<and> (copy_to_temp env st = (Inr True, st1) \<and> (\<forall>n. unlink env n) \<longrightarrow>
        \<not> temp_exists (snd (read_table_any env st)))"
proof (intro conjI impI)
  assume a: "copy_to_temp env st = (Inr True, st1)
      \<and> (lower (watch_suffix env) = ''.xlsx'' \<or> lower (watch_suffix env) = ''.xls'')
      \<and> read_excel env (ticks st1) = Inl e"
  then have "fst (read_body env st1) = Inl e"
    by (auto simp: read_body_def Let_def)
  with a show "fst (read_table_any env st) = Inl e"
    by (simp add: read_table_any_copied)
next
  assume a: "copy_to_temp env st = (Inr True, st1) \<and> lower (watch_suffix env) = ''.csv''
      \<and> read_csv_utf8 env (ticks st1) = Inl e0
      \<and> read_csv_python env (Suc (ticks st1)) = Inl e"
  then have "fst (read_body env st1) = Inl e"
    by (auto simp: read_body_def Let_def tick_def)
  with a show "fst (read_table_any env st) = Inl e"
    by (simp add: read_table_any_copied)
next
  assume a: "\<not> now - last_event st < DEBOUNCE_SECS
      \<and> fst (read_table_any env (emit ChangeDetected (st\<lparr>last_event := now\<rparr>))) = Inl e"
  then show "fst (handle_change env now st) = Inl e"
    by (cases "read_table_any env (emit ChangeDetected (st\<lparr>last_event := now\<rparr>))")
      (auto simp: handle_change_def Let_def)
next
  assume a: "copy_to_temp env st = (Inr True, st1) \<and> (\<forall>n. unlink env n)"
  then show "\<not> temp_exists (snd (read_table_any env st))"
    by (simp add: read_table_any_copied unlink_temp_def tick_def)
qed

theorem decoder_failure_raises_witness:
  "copy_to_temp broken_xlsx (idle_at 0)
     = (Inr True, \<lparr>last_event = 0, ticks = 5, temp_exists = True, printed = [],
                   slept = [0.3, 0.3, 0.3], posted = []\<rparr>)
   \<and> lower (watch_suffix broken_xlsx) = ''.xlsx''
   \<and> read_excel broken_xlsx 5 = Inl (PyError ''BadZipFile'')
   \<and> fst (read_table_any broken_xlsx (idle_at 0)) = Inl (PyError ''BadZipFile'')
   \<and> \<not> temp_exists (snd (read_table_any broken_xlsx (idle_at 0)))
   \<and> handle_change broken_xlsx 5 (idle_at 0)
       = (Inl (PyError ''BadZipFile''),
          \<lparr>last_event = 5, ticks = 7, temp_exists = False, printed = [ChangeDetected],
           slept = [0.3, 0.3, 0.3], posted = []\<rparr>)
   \<and> handle_change broken_csv 5 (idle_at 0)
       = (Inl (PyError ''EmptyDataError''),
          \<lparr>last_event = 5, ticks = 8, temp_exists = False, printed = [ChangeDetected],
           slept = [0.3, 0.3, 0.3], posted = []\<rparr>)
   \<and> accepted_times broken_csv
        [(modified ''sample_contacts.csv'', 5), (modified ''sample_contacts.csv'', 10)]
        (idle_at 0) = [5]"
proof -
  let ?s1 = "\<lparr>last_event = 0, ticks = 5, temp_exists = True, printed = [],
             slept = [0.3, 0.3, 0.3], posted = []\<rparr>"
  have suf: "lower (watch_suffix broken_xlsx) = ''.xlsx''"
    by (simp add: broken_xlsx_def lower_def lower_char_def)
  have rd: "read_excel broken_xlsx (ticks ?s1) = Inl (PyError ''BadZipFile'')"
    by (simp add: broken_xlsx_def)
  have un: "\<forall>n. unlink broken_xlsx n"
    by (simp add: broken_xlsx_def)
  note t = decoder_failure_raises [of broken_xlsx "idle_at 0" ?s1 "PyError ''BadZipFile''"]
  from t broken_xlsx_copy suf rd
  have 1: "fst (read_table_any broken_xlsx (idle_at 0)) = Inl (PyError ''BadZipFile'')"
    by blast
  from t broken_xlsx_copy un
  have 2: "\<not> temp_exists (snd (read_table_any broken_xlsx (idle_at 0)))"
    by blast
  from rd have rd': "read_excel broken_xlsx 5 = Inl (PyError ''BadZipFile'')" by simp
  from broken_xlsx_copy suf rd' 1 2 broken_xlsx_change broken_csv_change broken_csv_run
  show ?thesis by blast
qed

end
